theory Spec2Isabelle
  imports Complex_Main "HOL-Library.Multiset" "HOL-Library.Sublist"
begin

section \<open>JavaScript strings\<close>

text \<open>
  A JavaScript string is a sequence of UTF-16 code units; \<open>length\<close> counts code units.
  Literals of the source are written with \<open>str\<close>; a code unit outside ASCII is given by
  its number.
\<close>

type_synonym jsstring = "nat list"

definition str :: "string \<Rightarrow> jsstring" where
  "str s = map of_char s"

text \<open>Truthiness of a string value that may be \<open>undefined\<close>: defined and not empty.\<close>

fun truthy :: "jsstring option \<Rightarrow> bool" where
  "truthy None = False"
| "truthy (Some s) = (s \<noteq> [])"

text \<open>A template literal prints an \<open>undefined\<close> value as the word itself.\<close>

fun tmpl :: "jsstring option \<Rightarrow> jsstring" where
  "tmpl None = str ''undefined''"
| "tmpl (Some s) = s"

text \<open>
  The set matched by \<open>\s\<close> in a regular expression, which is also what
  \<open>String.prototype.trim\<close> removes: WhiteSpace and LineTerminator of ECMAScript.
\<close>

definition isSpace :: "nat \<Rightarrow> bool" where
  "isSpace c \<longleftrightarrow>
     c = 9 \<or> c = 10 \<or> c = 11 \<or> c = 12 \<or> c = 13 \<or> c = 32 \<or> c = 160 \<or> c = 5760 \<or>
     (8192 \<le> c \<and> c \<le> 8202) \<or> c = 8232 \<or> c = 8233 \<or> c = 8239 \<or> c = 8287 \<or>
     c = 12288 \<or> c = 65279"

definition trim :: "jsstring \<Rightarrow> jsstring" where
  "trim s = rev (dropWhile isSpace (rev (dropWhile isSpace s)))"


section \<open>JavaScript numbers\<close>

text \<open>
  A JavaScript number is an IEEE 754 binary64 value: NaN, an infinity with its sign
  (\<open>True\<close> is negative), the negative zero, or a finite value, given as a rational;
  \<open>Finite 0\<close> is the positive zero.
\<close>

datatype double = NaN | Infinity bool | NegZero | Finite rat

text \<open>
  Rounding to nearest, ties to even. A finite binary64 value is a multiple of
  \<open>2 ^ (e - 52)\<close> where \<open>2 ^ e\<close> is the power of two at or below its magnitude and \<open>e\<close> is at
  least -1022; a magnitude that rounds to \<open>2 ^ 1024\<close> or more overflows. \<open>ilog2 n\<close> is the
  position of the highest bit of \<open>n\<close>, \<open>exponentOf m\<close> the \<open>e\<close> of a positive magnitude,
  and \<open>roundMagnitude m\<close> the rounded magnitude, \<open>None\<close> on overflow.
\<close>

fun ilog2 :: "nat \<Rightarrow> nat" where
  "ilog2 n = (if n < 2 then 0 else Suc (ilog2 (n div 2)))"

declare ilog2.simps [simp del]

definition pow2 :: "int \<Rightarrow> rat" where
  "pow2 i = (if 0 \<le> i then 2 ^ nat i else 1 / 2 ^ nat (- i))"

definition exponentOf :: "rat \<Rightarrow> int" where
  "exponentOf m =
     (if 1 \<le> m then int (ilog2 (nat \<lfloor>m\<rfloor>))
      else (let k = int (ilog2 (nat \<lfloor>1 / m\<rfloor>)) in if m = pow2 (- k) then - k else - k - 1))"

definition roundHalfEven :: "rat \<Rightarrow> int" where
  "roundHalfEven x =
     (let n = \<lfloor>x\<rfloor>; f = x - of_int n
      in if f < 1 / 2 then n else if 1 / 2 < f then n + 1 else if even n then n else n + 1)"

definition roundMagnitude :: "rat \<Rightarrow> rat option" where
  "roundMagnitude m =
     (if m = 0 then Some 0
      else (let e = max (exponentOf m) (- 1022);
                quantum = pow2 (e - 52);
                v = of_int (roundHalfEven (m / quantum)) * quantum
            in if pow2 1024 \<le> v then None else Some v))"

text \<open>The zero of a sign, and the number of a sign and a magnitude, rounded.\<close>

definition zero :: "bool \<Rightarrow> double" where
  "zero s = (if s then NegZero else Finite 0)"

definition rounded :: "bool \<Rightarrow> rat \<Rightarrow> double" where
  "rounded s m =
     (case roundMagnitude m of
        None \<Rightarrow> Infinity s
      | Some v \<Rightarrow> if v = 0 then zero s else Finite (if s then - v else v))"

text \<open>The value of a numeric literal or of an integer.\<close>

definition numLit :: "rat \<Rightarrow> double" where
  "numLit q = rounded (q < 0) \<bar>q\<bar>"

fun isInfinite :: "double \<Rightarrow> bool" where
  "isInfinite (Infinity s) = True"
| "isInfinite d = False"

fun negative :: "double \<Rightarrow> bool" where
  "negative (Infinity s) = s"
| "negative NegZero = True"
| "negative (Finite q) = (q < 0)"
| "negative NaN = False"

text \<open>The value of a number that is neither NaN nor infinite.\<close>

fun valueOf :: "double \<Rightarrow> rat" where
  "valueOf (Finite q) = q"
| "valueOf d = 0"

definition isZero :: "double \<Rightarrow> bool" where
  "isZero d \<longleftrightarrow> d = NegZero \<or> d = Finite 0"

text \<open>\<open>a * b\<close>, \<open>a / b\<close>, \<open>a + b\<close>, \<open>- a\<close> and \<open>a - b\<close>.\<close>

definition numMul :: "double \<Rightarrow> double \<Rightarrow> double" where
  "numMul a b =
     (if a = NaN \<or> b = NaN then NaN
      else if isInfinite a \<or> isInfinite b
      then (if isZero a \<or> isZero b then NaN else Infinity (negative a \<noteq> negative b))
      else rounded (negative a \<noteq> negative b) (\<bar>valueOf a\<bar> * \<bar>valueOf b\<bar>))"

definition numDiv :: "double \<Rightarrow> double \<Rightarrow> double" where
  "numDiv a b =
     (if a = NaN \<or> b = NaN then NaN
      else if isInfinite a
      then (if isInfinite b then NaN else Infinity (negative a \<noteq> negative b))
      else if isInfinite b then zero (negative a \<noteq> negative b)
      else if isZero b
      then (if isZero a then NaN else Infinity (negative a \<noteq> negative b))
      else rounded (negative a \<noteq> negative b) (\<bar>valueOf a\<bar> / \<bar>valueOf b\<bar>))"

definition numAdd :: "double \<Rightarrow> double \<Rightarrow> double" where
  "numAdd a b =
     (if a = NaN \<or> b = NaN then NaN
      else if isInfinite a
      then (if isInfinite b \<and> negative a \<noteq> negative b then NaN else a)
      else if isInfinite b then b
      else (let q = valueOf a + valueOf b
            in if q = 0 then zero (negative a \<and> negative b) else rounded (q < 0) \<bar>q\<bar>))"

fun numNeg :: "double \<Rightarrow> double" where
  "numNeg NaN = NaN"
| "numNeg (Infinity s) = Infinity (\<not> s)"
| "numNeg NegZero = Finite 0"
| "numNeg (Finite q) = (if q = 0 then NegZero else Finite (- q))"

definition numSub :: "double \<Rightarrow> double \<Rightarrow> double" where
  "numSub a b = numAdd a (numNeg b)"

text \<open>\<open>a < b\<close> and \<open>a <= b\<close>: false when an operand is NaN; the zeros are equal.\<close>

definition numLess :: "double \<Rightarrow> double \<Rightarrow> bool" where
  "numLess a b =
     (if a = NaN \<or> b = NaN then False
      else if isInfinite a then negative a \<and> \<not> (isInfinite b \<and> negative b)
      else if isInfinite b then \<not> negative b
      else valueOf a < valueOf b)"

definition numLessEq :: "double \<Rightarrow> double \<Rightarrow> bool" where
  "numLessEq a b \<longleftrightarrow> a \<noteq> NaN \<and> b \<noteq> NaN \<and> \<not> numLess b a"

text \<open>\<open>Math.max\<close> and \<open>Math.min\<close>: NaN when an operand is NaN; \<open>+0\<close> is above \<open>-0\<close>.\<close>

definition mathMax :: "double \<Rightarrow> double \<Rightarrow> double" where
  "mathMax a b =
     (if a = NaN \<or> b = NaN then NaN
      else if numLess a b then b
      else if numLess b a then a
      else if a = NegZero then b else a)"

definition mathMin :: "double \<Rightarrow> double \<Rightarrow> double" where
  "mathMin a b =
     (if a = NaN \<or> b = NaN then NaN
      else if numLess a b then a
      else if numLess b a then b
      else if a = NegZero then a else b)"

text \<open>A number is truthy unless it is a zero or NaN.\<close>

definition numTruthy :: "double \<Rightarrow> bool" where
  "numTruthy d \<longleftrightarrow> d \<noteq> NaN \<and> \<not> isZero d"


section \<open>Cost ledger (costService.ts)\<close>

datatype OperationType =
  Retouch | Model | Expand | Describe | Enhance | Training | Correction | FindDifferences

text \<open>The counts are optional numbers.\<close>

record CostCalculationParams =
  operation :: OperationType
  inputChars :: "double option"
  outputChars :: "double option"
  inputImages :: "double option"
  outputImages :: "double option"

definition PRICE_PER_INPUT_CHAR :: double where
  "PRICE_PER_INPUT_CHAR = numDiv (numLit (35 / 100)) (numLit 1000000)"

definition PRICE_PER_OUTPUT_CHAR :: double where
  "PRICE_PER_OUTPUT_CHAR = numDiv (numLit (70 / 100)) (numLit 1000000)"

definition PRICE_PER_INPUT_IMAGE :: double where
  "PRICE_PER_INPUT_IMAGE = numLit (125 / 1000000)"

definition PRICE_PER_OUTPUT_IMAGE :: double where
  "PRICE_PER_OUTPUT_IMAGE = numLit (20 / 1000)"

text \<open>
  \<open>if (params.x) totalCost += params.x * PRICE\<close>: an absent count and a falsy count
  add nothing.
\<close>

fun addIfTruthy :: "double \<Rightarrow> double option \<Rightarrow> double \<Rightarrow> double" where
  "addIfTruthy totalCost None price = totalCost"
| "addIfTruthy totalCost (Some n) price =
     (if numTruthy n then numAdd totalCost (numMul n price) else totalCost)"

definition calculateCost :: "'z CostCalculationParams_scheme \<Rightarrow> double" where
  "calculateCost params =
     (let totalCost = numLit 0;
          totalCost = addIfTruthy totalCost (inputChars params) PRICE_PER_INPUT_CHAR;
          totalCost = addIfTruthy totalCost (outputChars params) PRICE_PER_OUTPUT_CHAR;
          totalCost = addIfTruthy totalCost (inputImages params) PRICE_PER_INPUT_IMAGE;
          totalCost = addIfTruthy totalCost (outputImages params) PRICE_PER_OUTPUT_IMAGE
      in mathMax totalCost (numLit (1 / 100000)))"




section \<open>Generation client: response handling (geminiService.ts)\<close>

record Blob =
  mimeType :: "jsstring option"
  data :: "jsstring option"

record Part =
  inlineData :: "Blob option"
  partText :: "jsstring option"

record Content =
  parts :: "Part list option"

record Candidate =
  content :: "Content option"
  finishReason :: "jsstring option"

record PromptFeedback =
  blockReason :: "jsstring option"
  blockReasonMessage :: "jsstring option"

text \<open>\<open>responseText\<close> is the value of the SDK's \<open>response.text\<close> getter.\<close>

record GenerateContentResponse =
  promptFeedback :: "PromptFeedback option"
  candidates :: "Candidate list option"
  responseText :: "jsstring option"

text \<open>
  The three \<open>throw new Error\<close> of the handler, with the values its message is built from:
  the context and the block reason and message; the context and the finish reason; the
  context and the trimmed text feedback when it is not empty.
\<close>

datatype api_error =
  PromptBlocked jsstring jsstring jsstring
| StoppedUnexpectedly jsstring jsstring
| NoImageReturned jsstring "jsstring option"

text \<open>\<open>response.candidates?.[0]\<close>\<close>

definition firstCandidate :: "GenerateContentResponse \<Rightarrow> Candidate option" where
  "firstCandidate response =
     (case candidates response of
        None \<Rightarrow> None
      | Some [] \<Rightarrow> None
      | Some (c # _) \<Rightarrow> Some c)"

text \<open>\<open>response.candidates?.[0]?.content?.parts\<close>\<close>

definition firstCandidateParts :: "GenerateContentResponse \<Rightarrow> Part list option" where
  "firstCandidateParts response =
     (case firstCandidate response of
        None \<Rightarrow> None
      | Some c \<Rightarrow> (case content c of None \<Rightarrow> None | Some ct \<Rightarrow> parts ct))"

text \<open>\<open>parts?.find(part => part.inlineData)\<close>: an object is truthy.\<close>

definition findImagePart :: "GenerateContentResponse \<Rightarrow> Part option" where
  "findImagePart response =
     (case firstCandidateParts response of
        None \<Rightarrow> None
      | Some ps \<Rightarrow> find (\<lambda>p. inlineData p \<noteq> None) ps)"

definition dataUrl :: "Blob \<Rightarrow> jsstring" where
  "dataUrl b = str ''data:'' @ tmpl (mimeType b) @ str '';base64,'' @ tmpl (data b)"

text \<open>
  \<open>response.promptFeedback?.blockReason\<close> when it is truthy, with
  \<open>blockReasonMessage || ''\<close>.
\<close>

definition blockedBy :: "GenerateContentResponse \<Rightarrow> (jsstring \<times> jsstring) option" where
  "blockedBy response =
     (case promptFeedback response of
        None \<Rightarrow> None
      | Some pf \<Rightarrow>
         (case blockReason pf of
            None \<Rightarrow> None
          | Some r \<Rightarrow>
             if r = [] then None
             else Some (r, case blockReasonMessage pf of None \<Rightarrow> [] | Some m \<Rightarrow> m)))"

text \<open>\<open>response.candidates?.[0]?.finishReason\<close>\<close>

definition firstFinishReason :: "GenerateContentResponse \<Rightarrow> jsstring option" where
  "firstFinishReason response =
     (case firstCandidate response of None \<Rightarrow> None | Some c \<Rightarrow> finishReason c)"

definition handleApiResponse :: "GenerateContentResponse \<Rightarrow> jsstring \<Rightarrow> api_error + jsstring" where
  "handleApiResponse response context =
     (case blockedBy response of
        Some (r, m) \<Rightarrow> Inl (PromptBlocked context r m)
      | None \<Rightarrow>
         (case (case findImagePart response of None \<Rightarrow> None | Some p \<Rightarrow> inlineData p) of
            Some b \<Rightarrow> Inr (dataUrl b)
          | None \<Rightarrow>
             (case firstFinishReason response of
                Some reason \<Rightarrow>
                  if reason \<noteq> [] \<and> reason \<noteq> str ''STOP''
                  then Inl (StoppedUnexpectedly context reason)
                  else Inl (NoImageReturned context
                              (case map_option trim (responseText response) of
                                 None \<Rightarrow> None
                               | Some t \<Rightarrow> if t = [] then None else Some t))
              | None \<Rightarrow>
                  Inl (NoImageReturned context
                         (case map_option trim (responseText response) of
                            None \<Rightarrow> None
                          | Some t \<Rightarrow> if t = [] then None else Some t)))))"

text \<open>The conditions the specification names.\<close>

definition promptWasBlocked :: "GenerateContentResponse \<Rightarrow> bool" where
  "promptWasBlocked response =
     (case promptFeedback response of None \<Rightarrow> False | Some pf \<Rightarrow> truthy (blockReason pf))"

definition firstImageBlob :: "GenerateContentResponse \<Rightarrow> Blob option" where
  "firstImageBlob response =
     (case candidates response of
        Some (c # _) \<Rightarrow>
          (case content c of
             Some ct \<Rightarrow>
               (case parts ct of
                  Some ps \<Rightarrow>
                    (case filter (\<lambda>p. inlineData p \<noteq> None) ps of
                       [] \<Rightarrow> None
                     | p # _ \<Rightarrow> inlineData p)
                | None \<Rightarrow> None)
           | None \<Rightarrow> None)
      | _ \<Rightarrow> None)"

definition stoppedEarly :: "GenerateContentResponse \<Rightarrow> bool" where
  "stoppedEarly response =
     (case candidates response of
        Some (c # _) \<Rightarrow> truthy (finishReason c) \<and> finishReason c \<noteq> Some (str ''STOP'')
      | _ \<Rightarrow> False)"

definition isThrow :: "'e + 'a \<Rightarrow> bool" where
  "isThrow r = (case r of Inl _ \<Rightarrow> True | Inr _ \<Rightarrow> False)"


section \<open>Outpainting mask (geminiService.ts)\<close>

text \<open>
  A canvas is its size and the drawing calls made on its 2D context, in order; the image
  encoder \<open>toDataURL\<close> of the browser is a parameter.
\<close>

datatype fillStyle = White | Red

datatype 'img drawCall =
  FillRect fillStyle double double double double
| DrawImage 'img double double double double
| ClearRect double double double double

record 'img canvas =
  canvasWidth :: double
  canvasHeight :: double
  calls :: "'img drawCall list"

record 'img HTMLImageElement =
  naturalWidth :: double
  naturalHeight :: double
  bitmap :: 'img

record masked =
  baseImage :: jsstring
  maskImage :: jsstring

definition canvasBase ::
  "'img HTMLImageElement \<Rightarrow> double \<Rightarrow> double \<Rightarrow> 'img canvas" where
  "canvasBase originalImage targetWidth targetHeight =
     (let iw = naturalWidth originalImage; ih = naturalHeight originalImage;
          hRatio = numDiv targetWidth iw; vRatio = numDiv targetHeight ih;
          ratio = mathMin hRatio vRatio;
          destWidth = numMul iw ratio; destHeight = numMul ih ratio;
          destX = numDiv (numSub targetWidth destWidth) (numLit 2);
          destY = numDiv (numSub targetHeight destHeight) (numLit 2)
      in \<lparr>canvasWidth = targetWidth, canvasHeight = targetHeight,
          calls = [FillRect White (numLit 0) (numLit 0) targetWidth targetHeight,
                   DrawImage (bitmap originalImage) destX destY destWidth destHeight]\<rparr>)"

definition canvasMask ::
  "'img HTMLImageElement \<Rightarrow> double \<Rightarrow> double \<Rightarrow> 'img canvas" where
  "canvasMask originalImage targetWidth targetHeight =
     (let iw = naturalWidth originalImage; ih = naturalHeight originalImage;
          hRatio = numDiv targetWidth iw; vRatio = numDiv targetHeight ih;
          ratio = mathMin hRatio vRatio;
          destWidth = numMul iw ratio; destHeight = numMul ih ratio;
          destX = numDiv (numSub targetWidth destWidth) (numLit 2);
          destY = numDiv (numSub targetHeight destHeight) (numLit 2)
      in \<lparr>canvasWidth = targetWidth, canvasHeight = targetHeight,
          calls = [FillRect Red (numLit 0) (numLit 0) targetWidth targetHeight,
                   ClearRect destX destY destWidth destHeight]\<rparr>)"

text \<open>
  The source builds both canvases and returns
  \<open>{ baseImage: canvasBase.toDataURL('image/png'), maskImage: canvasBase.toDataURL('image/png') }\<close>.
\<close>

definition createMaskedImage ::
  "('img canvas \<Rightarrow> jsstring) \<Rightarrow> 'img HTMLImageElement \<Rightarrow> double \<Rightarrow> double \<Rightarrow> masked" where
  "createMaskedImage toDataURL originalImage targetWidth targetHeight =
     \<lparr>baseImage = toDataURL (canvasBase originalImage targetWidth targetHeight),
      maskImage = toDataURL (canvasBase originalImage targetWidth targetHeight)\<rparr>"


section \<open>Auth middleware (auth.middleware.ts)\<close>

text \<open>\<open>String.prototype.split\<close> with a string separator.\<close>

function splitFrom :: "jsstring \<Rightarrow> jsstring \<Rightarrow> jsstring \<Rightarrow> jsstring list" where
  "splitFrom sep cur [] = [rev cur]"
| "splitFrom sep cur (c # cs) =
     (if sep \<noteq> [] \<and> prefix sep (c # cs)
      then rev cur # splitFrom sep [] (drop (length sep) (c # cs))
      else splitFrom sep (c # cur) cs)"
  by pat_completeness auto
termination
  by (relation "measure (\<lambda>(sep, cur, s). length s)") auto

definition split :: "jsstring \<Rightarrow> jsstring \<Rightarrow> jsstring list" where
  "split s sep = (if sep = [] then map (\<lambda>c. [c]) s else splitFrom sep [] s)"

text \<open>Reading an array at an index: \<open>undefined\<close> out of range.\<close>

definition elemAt :: "'a list \<Rightarrow> nat \<Rightarrow> 'a option" where
  "elemAt xs i = (if i < length xs then Some (xs ! i) else None)"

record AuthUser =
  uid :: jsstring
  email :: "jsstring option"
  role :: "jsstring option"

text \<open>The decoded token has the three fields the middleware copies, and further claims.\<close>

record DecodedIdToken = AuthUser +
  claims :: "(jsstring \<times> jsstring) list"

record Request =
  authorization :: "jsstring option"
  user :: "AuthUser option"

text \<open>
  What the middleware does with a request: it sends a response with a status and returns,
  or it calls \<open>next()\<close>, which runs the downstream handler on the request.
\<close>

datatype 'r outcome = Sent nat | Next 'r

text \<open>
  \<open>auth.verifyIdToken\<close> of the identity provider is a parameter; \<open>None\<close> is a rejected
  promise, which the \<open>catch\<close> answers with 403.
\<close>

definition authMiddleware ::
  "(jsstring \<Rightarrow> 'd DecodedIdToken_scheme option) \<Rightarrow> 'r Request_scheme \<Rightarrow> 'r Request_scheme outcome" where
  "authMiddleware verifyIdToken req =
     (case authorization req of
        None \<Rightarrow> Sent 401
      | Some authHeader \<Rightarrow>
          if authHeader = [] \<or> \<not> prefix (str ''Bearer '') authHeader then Sent 401
          else
            (case elemAt (split authHeader (str ''Bearer '')) 1 of
               None \<Rightarrow> Sent 403
             | Some idToken \<Rightarrow>
                (case verifyIdToken idToken of
                   None \<Rightarrow> Sent 403
                 | Some decodedToken \<Rightarrow>
                     Next (req\<lparr>user := Some \<lparr>uid = uid decodedToken,
                                              email = email decodedToken,
                                              role = role decodedToken\<rparr>\<rparr>))))"

text \<open>The token the middleware verifies, for a header that starts with the scheme.\<close>

definition bearerToken :: "jsstring \<Rightarrow> jsstring" where
  "bearerToken authHeader = hd (splitFrom (str ''Bearer '') [] (drop 7 authHeader))"


section \<open>Batch processor: file grouping (BatchProcessor.tsx)\<close>

text \<open>
  \<open>toLowerCase\<close> and \<open>toUpperCase\<close> of the platform are parameters \<open>lc\<close> and \<open>uc\<close> of
  the functions that call them. \<open>asciiLower\<close> and \<open>asciiUpper\<close> are what they do on
  ASCII strings, for evaluating examples.
\<close>

definition asciiLower :: "jsstring \<Rightarrow> jsstring" where
  "asciiLower s = map (\<lambda>c. if 65 \<le> c \<and> c \<le> 90 then c + 32 else c) s"

definition asciiUpper :: "jsstring \<Rightarrow> jsstring" where
  "asciiUpper s = map (\<lambda>c. if 97 \<le> c \<and> c \<le> 122 then c - 32 else c) s"

definition endsWith :: "jsstring \<Rightarrow> jsstring \<Rightarrow> bool" where
  "endsWith s suf = (length suf \<le> length s \<and> drop (length s - length suf) s = suf)"

text \<open>\<open>[\u2010-\u2015\s-]\<close>\<close>

definition isDashOrSpace :: "nat \<Rightarrow> bool" where
  "isDashOrSpace c \<longleftrightarrow> (8208 \<le> c \<and> c \<le> 8213) \<or> isSpace c \<or> c = 45"

text \<open>\<open>.replace(/[\u2010-\u2015\s-]+/g, '_')\<close>: every maximal run becomes one underscore.\<close>

function collapseRuns :: "jsstring \<Rightarrow> jsstring" where
  "collapseRuns [] = []"
| "collapseRuns (c # cs) =
     (if isDashOrSpace c then 95 # collapseRuns (dropWhile isDashOrSpace cs)
      else c # collapseRuns cs)"
  by pat_completeness auto
termination
  by (relation "measure length") (auto simp: less_Suc_eq_le length_dropWhile_le)

text \<open>
  The argument is a string at every call of the claim; \<open>\s\<close> already contains U+FEFF and
  U+00A0, so the first replace removes what \<open>trim\<close> removes.
\<close>

definition normalizeSku :: "(jsstring \<Rightarrow> jsstring) \<Rightarrow> jsstring \<Rightarrow> jsstring" where
  "normalizeSku uc sku = uc (collapseRuns (trim sku))"

text \<open>
  \<open>.replace(/\.[^/.]+$/, '')\<close>: the match is the last dot with what follows it, when
  what follows is not empty and has no slash. 46 is the dot, 47 the slash.
\<close>

definition stripExtension :: "jsstring \<Rightarrow> jsstring" where
  "stripExtension fileName =
     (let r = rev fileName;
          ext = takeWhile (\<lambda>c. c \<noteq> 46 \<and> c \<noteq> 47) r;
          before = dropWhile (\<lambda>c. c \<noteq> 46 \<and> c \<noteq> 47) r
      in case before of
           d # rest \<Rightarrow> if d = 46 \<and> ext \<noteq> [] then rev rest else fileName
         | [] \<Rightarrow> fileName)"

definition textSuffixes :: "jsstring list" where
  "textSuffixes = map str [''_frente'', ''_costas'', ''_back'', ''_front'', ''_total_look'',
                           ''_detalhe'', ''_side'', ''_lado'']"

definition isDigit :: "nat \<Rightarrow> bool" where
  "isDigit c \<longleftrightarrow> 48 \<le> c \<and> c \<le> 57"

text \<open>
  \<open>baseName.match(/_(\d{1,2})$/)\<close>: the length of the match, an underscore (95) and one or
  two digits at the end of the string.
\<close>

definition numericMatch :: "jsstring \<Rightarrow> nat option" where
  "numericMatch baseName =
     (case rev baseName of
        d # u # rest \<Rightarrow>
          if isDigit d \<and> u = 95 then Some 2
          else (case rest of
                  v # _ \<Rightarrow> if isDigit d \<and> isDigit u \<and> v = 95 then Some 3 else None
                | [] \<Rightarrow> None)
      | _ \<Rightarrow> None)"

text \<open>\<open>baseName.slice(0, -n)\<close> for a positive \<open>n\<close>.\<close>

definition sliceOff :: "jsstring \<Rightarrow> nat \<Rightarrow> jsstring" where
  "sliceOff baseName n = take (length baseName - n) baseName"

text \<open>
  One round of the \<open>while\<close> loop: the new base name when the round changed it
  (\<open>hasChanged = true\<close>), \<open>None\<close> when the loop ends.
\<close>

definition stripOnce :: "(jsstring \<Rightarrow> jsstring) \<Rightarrow> jsstring \<Rightarrow> jsstring option" where
  "stripOnce lc baseName =
     (let afterText =
            (case find (\<lambda>sfx. endsWith (lc baseName) sfx) textSuffixes of
               Some sfx \<Rightarrow> sliceOff baseName (length sfx)
             | None \<Rightarrow> baseName)
      in if afterText \<noteq> baseName then Some afterText
         else (case numericMatch baseName of
                 Some n \<Rightarrow> Some (sliceOff baseName n)
               | None \<Rightarrow> None))"

lemma numericMatch_pos: "numericMatch b = Some n \<Longrightarrow> 0 < n \<and> n \<le> length b"
proof -
  assume a: "numericMatch b = Some n"
  define r where "r = rev b"
  have len: "length r = length b" by (simp add: r_def)
  from a have "(case r of
        d # u # rest \<Rightarrow>
          if isDigit d \<and> u = 95 then Some 2
          else (case rest of
                  v # _ \<Rightarrow> if isDigit d \<and> isDigit u \<and> v = 95 then Some 3 else None
                | [] \<Rightarrow> None)
      | _ \<Rightarrow> None) = Some n"
    by (simp add: numericMatch_def r_def)
  with len show ?thesis
    by (auto split: list.splits if_splits)
qed

lemma sliceOff_shorter: "sliceOff b n \<noteq> b \<Longrightarrow> length (sliceOff b n) < length b"
  by (cases "length b - n < length b") (simp_all add: sliceOff_def)

lemma sliceOff_pos: "0 < n \<Longrightarrow> b \<noteq> [] \<Longrightarrow> length (sliceOff b n) < length b"
  by (simp add: sliceOff_def)

lemma stripOnce_shorter: "stripOnce lc b = Some b' \<Longrightarrow> length b' < length b"
proof -
  assume a: "stripOnce lc b = Some b'"
  show ?thesis
  proof (cases "find (\<lambda>sfx. endsWith (lc b) sfx) textSuffixes")
    case None
    with a obtain n where n: "numericMatch b = Some n" and b': "b' = sliceOff b n"
      by (auto simp: stripOnce_def split: option.splits)
    from numericMatch_pos [OF n] have "0 < n" "b \<noteq> []" by auto
    then show ?thesis unfolding b' by (rule sliceOff_pos)
  next
    case (Some sfx)
    show ?thesis
    proof (cases "sliceOff b (length sfx) \<noteq> b")
      case True
      with a Some have "b' = sliceOff b (length sfx)" by (simp add: stripOnce_def)
      with True show ?thesis using sliceOff_shorter by blast
    next
      case False
      with a Some obtain n where n: "numericMatch b = Some n" and b': "b' = sliceOff b n"
        by (auto simp: stripOnce_def split: option.splits)
      from numericMatch_pos [OF n] have "0 < n" "b \<noteq> []" by auto
      then show ?thesis unfolding b' by (rule sliceOff_pos)
    qed
  qed
qed

function stripSuffixes :: "(jsstring \<Rightarrow> jsstring) \<Rightarrow> jsstring \<Rightarrow> jsstring" where
  "stripSuffixes lc baseName =
     (case stripOnce lc baseName of
        Some baseName' \<Rightarrow> stripSuffixes lc baseName'
      | None \<Rightarrow> baseName)"
  by pat_completeness auto
termination
  by (relation "measure (\<lambda>(lc, b). length b)") (auto simp: stripOnce_shorter)

declare stripSuffixes.simps [simp del]

definition getBaseName :: "(jsstring \<Rightarrow> jsstring) \<Rightarrow> jsstring \<Rightarrow> jsstring" where
  "getBaseName lc fileName = stripSuffixes lc (trim (stripExtension fileName))"

datatype Status = Queued | Processing | Done | Error

datatype Gender = Male | Female

record 'c File =
  name :: jsstring
  contents :: 'c

text \<open>
  The fields of a queue item that the modelled functions read or write; a
  \<open>Record<string, string>\<close> is the list of its entries in key order.
\<close>

record 'c QueueItem =
  itemId :: jsstring
  baseName :: jsstring
  status :: Status
  error :: "jsstring option"
  availableFiles :: "'c File list"
  availableUrls :: "jsstring list"
  metadata :: "(jsstring \<times> jsstring) list option"
  excelMatch :: "bool option"
  isDescribing :: "bool option"
  currentViewIndex :: nat
  isComparing :: bool
  modelGender :: "Gender option"
  modelAge :: "jsstring option"

text \<open>
  \<open>fileGroups\<close> is a \<open>Map\<close> from group key to raw base name and files, in insertion order.
  \<open>addToGroup\<close> is the body of the first loop: \<open>set\<close> of a fresh entry when the key is
  new, then \<open>push\<close> of the file onto the entry of the key.
\<close>

type_synonym 'c fileGroups = "(jsstring \<times> jsstring \<times> 'c File list) list"

fun addToGroup :: "jsstring \<Rightarrow> jsstring \<Rightarrow> 'c File \<Rightarrow> 'c fileGroups \<Rightarrow> 'c fileGroups" where
  "addToGroup groupKey rawBaseName file [] = [(groupKey, rawBaseName, [file])]"
| "addToGroup groupKey rawBaseName file ((k, raw, fs) # entries) =
     (if k = groupKey then (k, raw, fs @ [file]) # entries
      else (k, raw, fs) # addToGroup groupKey rawBaseName file entries)"

definition groupKeyOf :: "(jsstring \<Rightarrow> jsstring) \<Rightarrow> (jsstring \<Rightarrow> jsstring) \<Rightarrow> 'c File \<Rightarrow> jsstring" where
  "groupKeyOf lc uc file = normalizeSku uc (getBaseName lc (name file))"

definition groupFiles ::
  "(jsstring \<Rightarrow> jsstring) \<Rightarrow> (jsstring \<Rightarrow> jsstring) \<Rightarrow> 'c File list \<Rightarrow> 'c fileGroups" where
  "groupFiles lc uc files =
     foldl (\<lambda>entries file.
              addToGroup (groupKeyOf lc uc file) (getBaseName lc (name file)) file entries)
       [] files"

text \<open>
  The environment of \<open>handleFiles\<close>: the spreadsheet rows by SKU (\<open>excelData\<close>, or null),
  \<open>URL.createObjectURL\<close>, and the text of \<open>Date.now()\<close> and \<open>Math.random()\<close> that ends the
  id of the n-th new item.
\<close>

record 'c uploadEnv =
  excelData :: "(jsstring \<Rightarrow> (jsstring \<times> jsstring) list option) option"
  createObjectURL :: "'c File \<Rightarrow> jsstring"
  idSuffix :: "nat \<Rightarrow> jsstring"

definition newItem ::
  "'c uploadEnv \<Rightarrow> nat \<Rightarrow> jsstring \<times> jsstring \<times> 'c File list \<Rightarrow> 'c QueueItem" where
  "newItem env n entry =
     (case entry of (groupKey, rawBaseName, filesInGroup) \<Rightarrow>
        \<lparr>itemId = groupKey @ str ''-'' @ idSuffix env n,
         baseName = rawBaseName,
         status = Queued,
         error = None,
         availableFiles = filesInGroup,
         availableUrls = map (createObjectURL env) filesInGroup,
         metadata = (case excelData env of None \<Rightarrow> None | Some rows \<Rightarrow> rows groupKey),
         excelMatch = (case excelData env of None \<Rightarrow> None
                       | Some rows \<Rightarrow> Some (rows groupKey \<noteq> None)),
         isDescribing = Some True,
         currentViewIndex = 0,
         isComparing = False,
         modelGender = None,
         modelAge = None\<rparr>)"

definition newItems ::
  "(jsstring \<Rightarrow> jsstring) \<Rightarrow> (jsstring \<Rightarrow> jsstring) \<Rightarrow> 'c uploadEnv \<Rightarrow> 'c File list
     \<Rightarrow> 'c QueueItem list" where
  "newItems lc uc env files =
     map (\<lambda>(n, entry). newItem env n entry) (enumerate 0 (groupFiles lc uc files))"

text \<open>
  \<open>handleFiles\<close> on the queue: nothing for null or no files, otherwise
  \<open>setQueue(prev => [...prev, ...newItems])\<close>.
\<close>

definition handleFiles ::
  "(jsstring \<Rightarrow> jsstring) \<Rightarrow> (jsstring \<Rightarrow> jsstring) \<Rightarrow> 'c uploadEnv \<Rightarrow> 'c File list option
     \<Rightarrow> 'c QueueItem list \<Rightarrow> 'c QueueItem list" where
  "handleFiles lc uc env files queue =
     (case files of
        None \<Rightarrow> queue
      | Some fs \<Rightarrow> if fs = [] then queue else queue @ newItems lc uc env fs)"


section \<open>Batch processor: per-item settings (BatchProcessor.tsx, processItem)\<close>

text \<open>
  \<open>findMetaValue\<close>: for each key in turn, the first column of the row whose lower-cased
  name is the lower-cased key; its value is returned when the column name and the value
  are truthy.
\<close>

fun findMetaValueIn ::
  "(jsstring \<Rightarrow> jsstring) \<Rightarrow> (jsstring \<times> jsstring) list \<Rightarrow> jsstring list \<Rightarrow> jsstring option" where
  "findMetaValueIn lc row [] = None"
| "findMetaValueIn lc row (key # keys) =
     (case find (\<lambda>k. lc k = lc key) (map fst row) of
        Some metaKey \<Rightarrow>
          (case map_of row metaKey of
             Some v \<Rightarrow> if metaKey \<noteq> [] \<and> v \<noteq> [] then Some v
                       else findMetaValueIn lc row keys
           | None \<Rightarrow> findMetaValueIn lc row keys)
      | None \<Rightarrow> findMetaValueIn lc row keys)"

definition findMetaValue ::
  "(jsstring \<Rightarrow> jsstring) \<Rightarrow> ('c, 'z) QueueItem_scheme \<Rightarrow> jsstring list \<Rightarrow> jsstring option" where
  "findMetaValue lc item keys =
     (case metadata item of None \<Rightarrow> None | Some row \<Rightarrow> findMetaValueIn lc row keys)"

text \<open>234 is e with circumflex, 225 is a with acute.\<close>

definition genderKeys :: "jsstring list" where
  "genderKeys = [str ''g'' @ [234] @ str ''nero'', str ''genero'', str ''gender'', str ''sexo'']"

definition ageKeys :: "jsstring list" where
  "ageKeys = [str ''idade'', str ''age'', str ''faixa et'' @ [225] @ str ''ria'', str ''(anos)'']"

record modelAgeSetting =
  male :: jsstring
  female :: jsstring

definition ageFor :: "modelAgeSetting \<Rightarrow> Gender \<Rightarrow> jsstring" where
  "ageFor ages g = (case g of Male \<Rightarrow> male ages | Female \<Rightarrow> female ages)"

text \<open>
  The gender of \<open>processItem\<close>: the global default, overwritten by a recognised
  spreadsheet value, overwritten by the item's own setting.
\<close>

definition itemGender ::
  "(jsstring \<Rightarrow> jsstring) \<Rightarrow> Gender \<Rightarrow> ('c, 'z) QueueItem_scheme \<Rightarrow> Gender" where
  "itemGender lc globalGender item =
     (let g = globalGender;
          metaGender = map_option lc (findMetaValue lc item genderKeys);
          g = (if metaGender = Some (str ''male'') \<or> metaGender = Some (str ''masculino'')
               then Male
               else if metaGender = Some (str ''female'') \<or> metaGender = Some (str ''feminino'')
               then Female
               else g)
      in case modelGender item of Some own \<Rightarrow> own | None \<Rightarrow> g)"

definition itemAge ::
  "(jsstring \<Rightarrow> jsstring) \<Rightarrow> Gender \<Rightarrow> modelAgeSetting \<Rightarrow> ('c, 'z) QueueItem_scheme \<Rightarrow> jsstring" where
  "itemAge lc globalGender globalAge item =
     (let a = ageFor globalAge (itemGender lc globalGender item);
          metaAge = findMetaValue lc item ageKeys;
          a = (if truthy metaAge then the metaAge else a)
      in if truthy (modelAge item) then the (modelAge item) else a)"


text \<open>
  The three sources of the cascade as the specification names them: the value of the
  spreadsheet row under the gender keys when it is one of the four recognised words, the
  value under the age keys, and the item's own age when it is set.
\<close>

definition spreadsheetGender ::
  "(jsstring \<Rightarrow> jsstring) \<Rightarrow> ('c, 'z) QueueItem_scheme \<Rightarrow> Gender option" where
  "spreadsheetGender lc item =
     (case findMetaValue lc item genderKeys of
        None \<Rightarrow> None
      | Some v \<Rightarrow>
          if lc v = str ''male'' \<or> lc v = str ''masculino'' then Some Male
          else if lc v = str ''female'' \<or> lc v = str ''feminino'' then Some Female
          else None)"

definition spreadsheetAge ::
  "(jsstring \<Rightarrow> jsstring) \<Rightarrow> ('c, 'z) QueueItem_scheme \<Rightarrow> jsstring option" where
  "spreadsheetAge lc item = findMetaValue lc item ageKeys"

definition ownAge :: "('c, 'z) QueueItem_scheme \<Rightarrow> jsstring option" where
  "ownAge item = (case modelAge item of None \<Rightarrow> None | Some a \<Rightarrow> if a = [] then None else Some a)"


text \<open>
  The grouping as the specification states it: the keys in the order of their first
  occurrence, and the files that have a given key.
\<close>

definition firstOccurrences :: "'a list \<Rightarrow> 'a list" where
  "firstOccurrences xs = rev (remdups (rev xs))"

definition filesWithKey ::
  "(jsstring \<Rightarrow> jsstring) \<Rightarrow> (jsstring \<Rightarrow> jsstring) \<Rightarrow> 'c File list \<Rightarrow> jsstring \<Rightarrow> 'c File list" where
  "filesWithKey lc uc files k = filter (\<lambda>f. groupKeyOf lc uc f = k) files"


section \<open>Batch processor: the queue run (BatchProcessor.tsx, processQueue)\<close>

definition CONCURRENCY_LIMIT :: nat where
  "CONCURRENCY_LIMIT = 3"

text \<open>The items a run processes: the queue with errors reset, filtered on \<open>queued\<close>.\<close>

definition queueWithResetErrors :: "'c QueueItem list \<Rightarrow> 'c QueueItem list" where
  "queueWithResetErrors queue =
     map (\<lambda>item. if status item = Error then item\<lparr>status := Queued, error := None\<rparr> else item)
       queue"

definition itemsToProcess :: "'c QueueItem list \<Rightarrow> 'c QueueItem list" where
  "itemsToProcess queue = filter (\<lambda>item. status item = Queued) (queueWithResetErrors queue)"

text \<open>
  The start button is disabled when \<open>itemsToProcessCount === 0 || isAnalyzingAny\<close>, or when
  the age setting of the selected gender is blank, which is taken to be filled in.
\<close>

definition itemsToProcessCount :: "'c QueueItem list \<Rightarrow> nat" where
  "itemsToProcessCount queue
     = length (filter (\<lambda>i. status i = Queued \<or> status i = Error) queue)"

definition isAnalyzingAny :: "'c QueueItem list \<Rightarrow> bool" where
  "isAnalyzingAny queue = list_ex (\<lambda>item. isDescribing item = Some True) queue"

definition startDisabled :: "'c QueueItem list \<Rightarrow> bool" where
  "startDisabled queue \<longleftrightarrow> itemsToProcessCount queue = 0 \<or> isAnalyzingAny queue"

text \<open>
  A run of \<open>processQueue\<close> is one click on the start button. Its state holds the \<open>queue\<close> of
  the render in which the button was clicked, the loop variable \<open>i\<close>, whether the loop is
  inside \<open>await Promise.all(...)\<close>, the calls of \<open>processItem\<close> that have not settled (a
  call is named by the index of its item in \<open>itemsToProcess\<close>), every item passed to
  \<open>processItem\<close> so far in call order, and whether the loop has been left.
\<close>

record 'c batchRun =
  runQueue :: "'c QueueItem list"
  loopIndex :: nat
  awaiting :: bool
  running :: "nat list"
  started :: "'c QueueItem list"
  exited :: bool

definition startRun :: "'c QueueItem list \<Rightarrow> 'c batchRun" where
  "startRun queue = \<lparr>runQueue = queue, loopIndex = 0, awaiting = False, running = [],
                     started = [], exited = False\<rparr>"

text \<open>\<open>itemsToProcess.slice(i, i + CONCURRENCY_LIMIT)\<close>, and the calls that \<open>chunk.map\<close> makes.\<close>

definition chunk :: "'c batchRun \<Rightarrow> 'c QueueItem list" where
  "chunk r = take CONCURRENCY_LIMIT (drop (loopIndex r) (itemsToProcess (runQueue r)))"

definition chunkCalls :: "'c batchRun \<Rightarrow> nat list" where
  "chunkCalls r = [loopIndex r ..< loopIndex r + length (chunk r)]"

text \<open>
  The component: the ref \<open>isBatchCancelled.current\<close> and the state \<open>isProcessing\<close>, which
  every run shares, the runs in the order they were started, the requests in flight, each
  with the run and the call that issued it, and the calls that have had a request rejected.
\<close>

record 'c batch =
  isBatchCancelled :: bool
  isProcessing :: bool
  runs :: "'c batchRun list"
  requests :: "(nat \<times> nat) list"
  rejected :: "(nat \<times> nat) list"


text \<open>
  The steps of the component.

  \<^item> \<open>processQueue\<close>: the start button is rendered when \<open>isProcessing\<close> is false; the
    click, when the button is not disabled, clears the cancel flag, sets \<open>isProcessing\<close>
    and begins a run on the queue.
  \<^item> \<open>takeChunk\<close>: the loop test of a run passes, the cancel flag is not set, and
    \<open>chunk.map\<close> calls \<open>processItem\<close> on every item of the chunk.
  \<^item> \<open>awaitRequests\<close>: a call that has not settled issues requests and awaits them: one
    for a single awaited request, one for each available file at
    \<open>Promise.all(item.availableFiles.map(...enhanceAndUpscaleImage...))\<close>, one for each
    total-look result at the final resize. The functions left running by a rejected
    \<open>Promise.all\<close> may issue their later requests too.
  \<^item> \<open>requestFulfilled\<close>, \<open>requestRejected\<close>: a request in flight completes.
  \<^item> \<open>settle\<close>: \<open>processItem\<close> catches its errors, so a call only ever returns. It
    returns when it awaits no request, or when a request it awaited was rejected:
    \<open>Promise.all\<close> rejects at the first rejection and the \<open>catch\<close> block returns.
  \<^item> \<open>resume\<close>: \<open>Promise.all\<close> over the calls of the chunk resumes the loop when all of them
    have settled, and \<open>i\<close> is advanced.
  \<^item> \<open>leave\<close>: the loop is left when \<open>i\<close> has reached the length or the cancel flag is set
    at the test, and \<open>isProcessing\<close> is cleared.
  \<^item> \<open>handleCancelProcessing\<close>: the cancel button is rendered when \<open>isProcessing\<close> is
    true; the click sets the cancel flag and clears \<open>isProcessing\<close>.
\<close>

inductive step :: "'c batch \<Rightarrow> 'c batch \<Rightarrow> bool" where
  processQueue:
    "\<not> isProcessing s \<Longrightarrow> \<not> startDisabled queue \<Longrightarrow>
     step s (s\<lparr>isBatchCancelled := False, isProcessing := True,
               runs := runs s @ [startRun queue]\<rparr>)"
| takeChunk:
    "n < length (runs s) \<Longrightarrow> r = runs s ! n \<Longrightarrow> \<not> exited r \<Longrightarrow> \<not> awaiting r \<Longrightarrow>
     loopIndex r < length (itemsToProcess (runQueue r)) \<Longrightarrow> \<not> isBatchCancelled s \<Longrightarrow>
     step s (s\<lparr>runs := (runs s)[n := r\<lparr>awaiting := True, running := chunkCalls r,
                                          started := started r @ chunk r\<rparr>]\<rparr>)"
| awaitRequests:
    "n < length (runs s) \<Longrightarrow> i \<in> set (running (runs s ! n)) \<or> (n, i) \<in> set (rejected s) \<Longrightarrow>
     step s (s\<lparr>requests := requests s @ replicate k (n, i)\<rparr>)"
| requestFulfilled:
    "c \<in> set (requests s) \<Longrightarrow> step s (s\<lparr>requests := remove1 c (requests s)\<rparr>)"
| requestRejected:
    "c \<in> set (requests s) \<Longrightarrow>
     step s (s\<lparr>requests := remove1 c (requests s), rejected := c # rejected s\<rparr>)"
| settle:
    "n < length (runs s) \<Longrightarrow> r = runs s ! n \<Longrightarrow> i \<in> set (running r) \<Longrightarrow>
     (n, i) \<notin> set (requests s) \<or> (n, i) \<in> set (rejected s) \<Longrightarrow>
     step s (s\<lparr>runs := (runs s)[n := r\<lparr>running := remove1 i (running r)\<rparr>]\<rparr>)"
| resume:
    "n < length (runs s) \<Longrightarrow> r = runs s ! n \<Longrightarrow> awaiting r \<Longrightarrow> running r = [] \<Longrightarrow>
     step s (s\<lparr>runs := (runs s)[n := r\<lparr>awaiting := False,
                                          loopIndex := loopIndex r + CONCURRENCY_LIMIT\<rparr>]\<rparr>)"
| leave:
    "n < length (runs s) \<Longrightarrow> r = runs s ! n \<Longrightarrow> \<not> exited r \<Longrightarrow> \<not> awaiting r \<Longrightarrow>
     length (itemsToProcess (runQueue r)) \<le> loopIndex r \<or> isBatchCancelled s \<Longrightarrow>
     step s (s\<lparr>isProcessing := False, runs := (runs s)[n := r\<lparr>exited := True\<rparr>]\<rparr>)"
| handleCancelProcessing:
    "isProcessing s \<Longrightarrow> step s (s\<lparr>isBatchCancelled := True, isProcessing := False\<rparr>)"






section \<open>Generation client: retouch (geminiService.ts, generateEditedImage)\<close>

text \<open>
  The part of \<open>arr[0].match(/:(.*?);/)\<close> between the colon (58) and the semicolon (59):
  the first colon from which a semicolon is reached without crossing a line terminator.
\<close>

definition isLineTerminator :: "nat \<Rightarrow> bool" where
  "isLineTerminator c \<longleftrightarrow> c = 10 \<or> c = 13 \<or> c = 8232 \<or> c = 8233"

fun mimeMatch :: "jsstring \<Rightarrow> jsstring option" where
  "mimeMatch [] = None"
| "mimeMatch (c # cs) =
     (if c = 58 then
        (case dropWhile (\<lambda>d. d \<noteq> 59 \<and> \<not> isLineTerminator d) cs of
           d # _ \<Rightarrow>
             if d = 59 then Some (takeWhile (\<lambda>d. d \<noteq> 59 \<and> \<not> isLineTerminator d) cs)
             else mimeMatch cs
         | [] \<Rightarrow> mimeMatch cs)
      else mimeMatch cs)"

datatype reqPart = TextPart jsstring | InlineDataPart jsstring jsstring

record CostLog =
  imageName :: jsstring
  logOperation :: OperationType
  cost :: double
  timestamp :: nat
  details :: "jsstring option"
  projectId :: jsstring
  userId :: jsstring

text \<open>
  What the client cannot compute: reading a file as a data URL (\<open>None\<close> when the reader
  fails), loading an image for its dimensions, the provider's answer to a request (\<open>None\<close>
  when the call rejects), the text of a number, the clock, and whether the IndexedDB
  transaction of \<open>logCost\<close> completes.
\<close>

record 'c genEnv =
  readAsDataURL :: "'c File \<Rightarrow> jsstring option"
  getImageDimensions :: "'c File \<Rightarrow> (double \<times> double) option"
  generateContent :: "reqPart list \<Rightarrow> GenerateContentResponse option"
  numberToString :: "double \<Rightarrow> jsstring"
  dateNow :: nat
  transactionCompletes :: "CostLog \<Rightarrow> bool"

datatype edit_error =
  FileReadFailed
| InvalidDataUrl
| NoMimeType
| DimensionsFailed
| NeedHotspotOrMask
| GenerationRejected
| ApiError api_error
| LogCostFailed

text \<open>The effects the claim counts: the generation requests issued and the cost log.\<close>

record editState =
  generationCalls :: "reqPart list list"
  costLogs :: "CostLog list"

definition fileToPart :: "'c genEnv \<Rightarrow> 'c File \<Rightarrow> edit_error + reqPart" where
  "fileToPart env file =
     (case readAsDataURL env file of
        None \<Rightarrow> Inl FileReadFailed
      | Some url \<Rightarrow>
         (case split url (str '','') of
            a0 # a1 # _ \<Rightarrow>
              (case mimeMatch a0 of
                 None \<Rightarrow> Inl NoMimeType
               | Some m \<Rightarrow> if m = [] then Inl NoMimeType else Inr (InlineDataPart m a1))
          | _ \<Rightarrow> Inl InvalidDataUrl))"

definition logCost ::
  "'c genEnv \<Rightarrow> jsstring \<Rightarrow> OperationType \<Rightarrow> double \<Rightarrow> jsstring \<Rightarrow> jsstring option
     \<Rightarrow> jsstring \<Rightarrow> editState \<Rightarrow> edit_error + editState" where
  "logCost env imageName' op c userId' d projectId' st =
     (let log = \<lparr>imageName = imageName', logOperation = op, cost = c, timestamp = dateNow env,
                 details = map_option (take 150) d, projectId = projectId', userId = userId'\<rparr>
      in if transactionCompletes env log then Inr (st\<lparr>costLogs := costLogs st @ [log]\<rparr>)
         else Inl LogCostFailed)"

record hotspot =
  hotspotX :: double
  hotspotY :: double

text \<open>
  The fixed texts of the prompts. 225, 227, 231 and 233 are a with acute, a with tilde,
  c with cedilla and e with acute.
\<close>

definition maskPromptPrefix :: jsstring where
  "maskPromptPrefix =
     str ''Na '' @ [225] @ str ''rea mascarada, aplique a seguinte edi'' @ [231, 227]
     @ str ''o: ''"

definition maskIntroduction :: jsstring where
  "maskIntroduction =
     str ''A imagem a seguir '' @ [233] @ str '' uma m'' @ [225] @ str ''scara. A '' @ [225]
     @ str ''rea em vermelho indica a regi'' @ [227] @ str ''o a ser editada.''"

definition hotspotPromptEnd :: jsstring where
  "hotspotPromptEnd =
     str '' (contando a partir do canto superior esquerdo), aplique a seguinte edi''
     @ [231, 227] @ str ''o: ''"

text \<open>
  The branch on mask and hotspot: the parts of the request, the full prompt and the number
  of input images, or the error of the branch. The calls of \<open>onProgress\<close> are left out.
\<close>

definition editParts ::
  "'c genEnv \<Rightarrow> 'c File \<Rightarrow> reqPart \<Rightarrow> jsstring \<Rightarrow> hotspot option \<Rightarrow> 'c File option
     \<Rightarrow> edit_error + (reqPart list \<times> jsstring \<times> double)" where
  "editParts env imageFile imagePart prompt hs maskFile =
     (case maskFile of
        Some mf \<Rightarrow>
          (case fileToPart env mf of
             Inl e \<Rightarrow> Inl e
           | Inr maskPart \<Rightarrow>
               (let fullPrompt = maskPromptPrefix @ prompt
                in Inr ([imagePart,
                         TextPart maskIntroduction,
                         maskPart,
                         TextPart fullPrompt], fullPrompt, numLit 2)))
      | None \<Rightarrow>
          (case hs of
             Some h \<Rightarrow>
               (case getImageDimensions env imageFile of
                  None \<Rightarrow> Inl DimensionsFailed
                | Some (width, height) \<Rightarrow>
                    (let fullPrompt =
                           str ''A imagem fornecida tem '' @ numberToString env width
                           @ str '' pixels de largura por '' @ numberToString env height
                           @ str '' pixels de altura. Na coordenada x=''
                           @ numberToString env (hotspotX h)
                           @ str '', y='' @ numberToString env (hotspotY h)
                           @ hotspotPromptEnd @ prompt
                     in Inr ([imagePart, TextPart fullPrompt], fullPrompt, numLit 1)))
           | None \<Rightarrow> Inl NeedHotspotOrMask))"

definition generateEditedImage ::
  "'c genEnv \<Rightarrow> 'c File \<Rightarrow> jsstring \<Rightarrow> hotspot option \<Rightarrow> 'c File option \<Rightarrow> jsstring
     \<Rightarrow> jsstring \<Rightarrow> jsstring \<Rightarrow> editState \<Rightarrow> (edit_error + jsstring) \<times> editState" where
  "generateEditedImage env imageFile prompt hs maskFile imageName' userId' projectId' st =
     (case fileToPart env imageFile of
        Inl e \<Rightarrow> (Inl e, st)
      | Inr imagePart \<Rightarrow>
         (case editParts env imageFile imagePart prompt hs maskFile of
            Inl e \<Rightarrow> (Inl e, st)
          | Inr (reqParts, fullPrompt, nImages) \<Rightarrow>
             (let st1 = st\<lparr>generationCalls := generationCalls st @ [reqParts]\<rparr>
              in case generateContent env reqParts of
                   None \<Rightarrow> (Inl GenerationRejected, st1)
                 | Some response \<Rightarrow>
                    (case handleApiResponse response (str ''retouch'') of
                       Inl e \<Rightarrow> (Inl (ApiError e), st1)
                     | Inr result \<Rightarrow>
                        (let promptLength = numLit (of_nat (length fullPrompt));
                             c = calculateCost
                                   \<lparr>operation = Retouch,
                                    inputChars = Some promptLength,
                                    outputChars = None,
                                    inputImages = Some nImages,
                                    outputImages = Some (numLit 1)\<rparr>;
                             d = numberToString env nImages @ str '' imgs in, 1 img out, ''
                                 @ numberToString env promptLength
                                 @ str '' chars''
                         in case logCost env imageName' Retouch c userId' (Some d) projectId' st1 of
                              Inl e \<Rightarrow> (Inl e, st1)
                            | Inr st2 \<Rightarrow> (Inr result, st2))))))"


section \<open>Gallery controllers (gallery.controller.ts)\<close>

text \<open>
  A document of the \<open>gallery\<close> collection with the fields the controllers read or write
  (\<open>uid\<close>, \<open>name\<close>, \<open>parentId\<close>, \<open>type\<close>, \<open>storagePath\<close>), the collection as the list of its
  documents by id, and the bucket as the set of the paths of its files. Firestore and
  Cloud Storage are taken to answer every call that they accept.
\<close>

datatype DocType = FolderType | FileType | ImageType | OtherType jsstring

record Doc =
  docUid :: jsstring
  docName :: jsstring
  parentId :: "jsstring option"
  docType :: DocType
  storagePath :: "jsstring option"

record store =
  gallery :: "(jsstring \<times> Doc) list"
  bucket :: "jsstring set"

text \<open>
  \<open>validDocId\<close> says which ids \<open>db.collection('gallery').doc(id)\<close> accepts: it throws on a
  value that is not a document path below the collection, such as the empty string, and
  what it throws reaches the \<open>catch\<close> of the controller. \<open>deleteRejects\<close> says for which
  paths \<open>bucket.file(path).delete()\<close> rejects although the file is there; \<open>newDocId\<close> is
  the id \<open>add\<close> gives to a new document.
\<close>

record galleryEnv =
  validDocId :: "jsstring \<Rightarrow> bool"
  deleteRejects :: "jsstring \<Rightarrow> bool"
  newDocId :: "store \<Rightarrow> jsstring"

text \<open>
  \<open>itemIds\<close> of a request body: missing or another falsy value, a truthy value that is not
  an array, or an array of ids.
\<close>

datatype itemIdsBody = NoItemIds | NotAnArray | ItemIds "jsstring list"

text \<open>
  \<open>if (storagePath) await bucket.file(storagePath).delete().catch(log)\<close>: a rejection is
  logged and the file stays.
\<close>

definition deleteStoredFile :: "galleryEnv \<Rightarrow> Doc \<Rightarrow> store \<Rightarrow> store" where
  "deleteStoredFile env d st =
     (case storagePath d of
        None \<Rightarrow> st
      | Some p \<Rightarrow> if p \<noteq> [] \<and> \<not> deleteRejects env p
                  then st\<lparr>bucket := bucket st - {p}\<rparr> else st)"

definition isFileDoc :: "Doc \<Rightarrow> bool" where
  "isFileDoc d \<longleftrightarrow> docType d = FileType \<or> docType d = ImageType"

text \<open>The two queries of \<open>deleteFolderRecursive\<close>.\<close>

definition subFoldersOf :: "jsstring \<Rightarrow> jsstring \<Rightarrow> store \<Rightarrow> (jsstring \<times> Doc) list" where
  "subFoldersOf uid' folderId st =
     filter (\<lambda>(i, d). docUid d = uid' \<and> parentId d = Some folderId \<and> docType d = FolderType)
       (gallery st)"

definition filesOf :: "jsstring \<Rightarrow> jsstring \<Rightarrow> store \<Rightarrow> (jsstring \<times> Doc) list" where
  "filesOf uid' folderId st =
     filter (\<lambda>(i, d). docUid d = uid' \<and> parentId d = Some folderId \<and> isFileDoc d) (gallery st)"

text \<open>
  The end of \<open>deleteFolderRecursive\<close>, after the sub-folders: the files of the folder are
  deleted from the bucket one by one, then the batch that deletes their documents and the
  folder's document is committed.
\<close>

definition deleteFolderContents :: "galleryEnv \<Rightarrow> jsstring \<Rightarrow> jsstring \<Rightarrow> store \<Rightarrow> store" where
  "deleteFolderContents env uid' folderId st =
     (let files = filesOf uid' folderId st;
          st' = fold (\<lambda>(i, d). deleteStoredFile env d) files st
      in st'\<lparr>gallery := filter (\<lambda>(i, d). i \<notin> set (map fst files) \<and> i \<noteq> folderId)
                            (gallery st')\<rparr>)"

text \<open>
  \<open>deleteFolderRecursive\<close> awaits itself on every sub-folder before it deletes the folder,
  so on parent links that form a cycle it never returns. The first argument bounds the
  depth of the recursion; \<open>None\<close> is a call that has not returned within it.
\<close>

fun deleteFolderRecursive ::
      "galleryEnv \<Rightarrow> nat \<Rightarrow> jsstring \<Rightarrow> jsstring \<Rightarrow> store \<Rightarrow> store option"
  and deleteSubFolders ::
      "galleryEnv \<Rightarrow> nat \<Rightarrow> jsstring list \<Rightarrow> jsstring \<Rightarrow> store \<Rightarrow> store option" where
  "deleteFolderRecursive env 0 folderId uid' st = None"
| "deleteFolderRecursive env (Suc n) folderId uid' st =
     (case deleteSubFolders env n (map fst (subFoldersOf uid' folderId st)) uid' st of
        None \<Rightarrow> None
      | Some st1 \<Rightarrow> Some (deleteFolderContents env uid' folderId st1))"
| "deleteSubFolders env n [] uid' st = Some st"
| "deleteSubFolders env n (i # ids) uid' st =
     (case deleteFolderRecursive env n i uid' st of
        None \<Rightarrow> None
      | Some st1 \<Rightarrow> deleteSubFolders env n ids uid' st1)"

text \<open>
  The controllers give the status of the response and the store after the request.

  The loop of \<open>deleteItemsController\<close> over the ids of the request, up to the response: 200
  after the last id, 500 from the \<open>catch\<close> when \<open>doc\<close> throws on an id, with the items before
  it already deleted.
\<close>

fun deleteItemsLoop ::
  "galleryEnv \<Rightarrow> nat \<Rightarrow> jsstring \<Rightarrow> jsstring list \<Rightarrow> store \<Rightarrow> (nat \<times> store) option" where
  "deleteItemsLoop env fuel uid' [] st = Some (200, st)"
| "deleteItemsLoop env fuel uid' (itemId' # itemIds) st =
     (if \<not> validDocId env itemId' then Some (500, st)
      else
        (case map_of (gallery st) itemId' of
           None \<Rightarrow> deleteItemsLoop env fuel uid' itemIds st
         | Some itemData \<Rightarrow>
             if docUid itemData \<noteq> uid' then deleteItemsLoop env fuel uid' itemIds st
             else if docType itemData = FolderType then
               (case deleteFolderRecursive env fuel itemId' uid' st of
                  None \<Rightarrow> None
                | Some st1 \<Rightarrow> deleteItemsLoop env fuel uid' itemIds st1)
             else if isFileDoc itemData then
               (let st1 = deleteStoredFile env itemData st;
                    st2 = st1\<lparr>gallery := filter (\<lambda>(i, d). i \<noteq> itemId') (gallery st1)\<rparr>
                in deleteItemsLoop env fuel uid' itemIds st2)
             else deleteItemsLoop env fuel uid' itemIds st))"

text \<open>\<open>if (!itemIds || !Array.isArray(itemIds))\<close> answers 400.\<close>

definition deleteItemsController ::
  "galleryEnv \<Rightarrow> nat \<Rightarrow> jsstring \<Rightarrow> itemIdsBody \<Rightarrow> store \<Rightarrow> (nat \<times> store) option" where
  "deleteItemsController env fuel uid' itemIds st =
     (case itemIds of
        NoItemIds \<Rightarrow> Some (400, st)
      | NotAnArray \<Rightarrow> Some (400, st)
      | ItemIds ids \<Rightarrow> deleteItemsLoop env fuel uid' ids st)"

text \<open>\<open>currentName.substring(currentName.lastIndexOf('.'))\<close>; 46 is the dot.\<close>

definition extensionOf :: "jsstring \<Rightarrow> jsstring" where
  "extensionOf currentName =
     (if 46 \<in> set currentName then 46 # rev (takeWhile (\<lambda>c. c \<noteq> 46) (rev currentName))
      else currentName)"

definition updateDoc :: "jsstring \<Rightarrow> (Doc \<Rightarrow> Doc) \<Rightarrow> store \<Rightarrow> store" where
  "updateDoc itemId' f st =
     st\<lparr>gallery := map (\<lambda>(i, d). if i = itemId' then (i, f d) else (i, d)) (gallery st)\<rparr>"

definition renameItemController ::
  "galleryEnv \<Rightarrow> jsstring \<Rightarrow> jsstring \<Rightarrow> jsstring option \<Rightarrow> store \<Rightarrow> nat \<times> store" where
  "renameItemController env uid' itemId' newName st =
     (case newName of
        None \<Rightarrow> (400, st)
      | Some n \<Rightarrow>
          if n = [] then (400, st)
          else if \<not> validDocId env itemId' then (500, st)
          else (case map_of (gallery st) itemId' of
                  None \<Rightarrow> (404, st)
                | Some itemData \<Rightarrow>
                    if docUid itemData \<noteq> uid' then (404, st)
                    else
                      (let finalName = (if docType itemData = FileType
                                        then n @ extensionOf (docName itemData) else n)
                       in (200, updateDoc itemId' (\<lambda>d. d\<lparr>docName := finalName\<rparr>) st))))"

text \<open>
  \<open>moveItemsController\<close> answers 400 when \<open>itemIds\<close> or \<open>destinationFolderId\<close> is falsy. It
  then puts one update per id into a batch and commits it. The \<open>catch\<close> answers 500 when
  \<open>itemIds\<close> has no \<open>forEach\<close>, when \<open>doc\<close> throws on an id, and when the commit fails, which
  it does as a whole when the batch updates a missing document.
\<close>

definition moveItemsController ::
  "galleryEnv \<Rightarrow> jsstring \<Rightarrow> itemIdsBody \<Rightarrow> jsstring option \<Rightarrow> store \<Rightarrow> nat \<times> store" where
  "moveItemsController env uid' itemIds destinationFolderId st =
     (if itemIds \<noteq> NoItemIds \<and> truthy destinationFolderId
      then
        (case itemIds of
           ItemIds ids \<Rightarrow>
             if list_all (validDocId env) ids \<and> list_all (\<lambda>i. map_of (gallery st) i \<noteq> None) ids
             then (200, fold (\<lambda>i. updateDoc i (\<lambda>d. d\<lparr>parentId := destinationFolderId\<rparr>)) ids st)
             else (500, st)
         | _ \<Rightarrow> (500, st))
      else (400, st))"

definition trashFolderName :: jsstring where
  "trashFolderName = str ''Lixeira''"

text \<open>The status, the id of the trash folder, and the store.\<close>

definition findOrCreateTrashFolderController ::
  "galleryEnv \<Rightarrow> jsstring \<Rightarrow> store \<Rightarrow> nat \<times> jsstring \<times> store" where
  "findOrCreateTrashFolderController env uid' st =
     (case filter (\<lambda>(i, d). docUid d = uid' \<and> docName d = trashFolderName
                            \<and> docType d = FolderType) (gallery st) of
        (i, d) # _ \<Rightarrow> (200, i, st)
      | [] \<Rightarrow>
          (201, newDocId env st,
           st\<lparr>gallery := gallery st @
                 [(newDocId env st,
                   \<lparr>docUid = uid', docName = trashFolderName, parentId = Some (str ''root''),
                    docType = FolderType, storagePath = None\<rparr>)]\<rparr>))"

text \<open>
  What a delete does to the store: documents are only removed, by id, and files are only
  removed from the bucket; a removed file document has had its stored file deleted, unless
  it has no path or the deletion rejected.
\<close>

definition fileGone :: "galleryEnv \<Rightarrow> Doc \<Rightarrow> store \<Rightarrow> bool" where
  "fileGone env d st =
     (case storagePath d of
        None \<Rightarrow> True
      | Some p \<Rightarrow> p = [] \<or> deleteRejects env p \<or> p \<notin> bucket st)"

definition removedIds :: "store \<Rightarrow> store \<Rightarrow> jsstring set" where
  "removedIds st st' = fst ` set (gallery st) - fst ` set (gallery st')"

definition hardDeletes :: "galleryEnv \<Rightarrow> store \<Rightarrow> store \<Rightarrow> bool" where
  "hardDeletes env st st' =
     (gallery st' = filter (\<lambda>e. fst e \<notin> removedIds st st') (gallery st)
      \<and> bucket st' \<subseteq> bucket st
      \<and> list_all (\<lambda>e. fst e \<notin> removedIds st st' \<or> \<not> isFileDoc (snd e) \<or> fileGone env (snd e) st')
           (gallery st))"

text \<open>Every document with the id, if there is one, is a folder.\<close>

definition folderOrAbsent :: "store \<Rightarrow> jsstring \<Rightarrow> bool" where
  "folderOrAbsent st i = list_all (\<lambda>e. fst e \<noteq> i \<or> docType (snd e) = FolderType) (gallery st)"

text \<open>
  The folders nested below a folder are fewer than \<open>n\<close> deep: then
  \<open>deleteFolderRecursive\<close> returns within depth \<open>n\<close>.
\<close>

fun nestedWithin :: "nat \<Rightarrow> jsstring \<Rightarrow> store \<Rightarrow> jsstring \<Rightarrow> bool" where
  "nestedWithin 0 uid' st folderId = False"
| "nestedWithin (Suc n) uid' st folderId =
     list_all (nestedWithin n uid' st) (map fst (subFoldersOf uid' folderId st))"


section \<open>Example inputs\<close>

text \<open>A token verifier that accepts the one token \<open>good\<close>.\<close>

definition demoVerify :: "jsstring \<Rightarrow> DecodedIdToken option" where
  "demoVerify t = (if t = str ''good'' then
      Some \<lparr>uid = str ''u1'', email = None, role = Some (str ''admin''), claims = []\<rparr> else None)"




text \<open>A queue item with a spreadsheet row.\<close>

definition demoItem :: "unit QueueItem" where
  "demoItem =
     \<lparr>itemId = str ''SKU_1-0'', baseName = str ''sku 1'', status = Queued, error = None,
      availableFiles = [], availableUrls = [],
      metadata = Some [(str ''SKU'', str ''SKU_1''), (str ''Genero'', str ''''),
                       (str ''SEXO'', str ''Feminino''), (str ''Idade'', str ''8 anos'')],
      excelMatch = Some True, isDescribing = Some True, currentViewIndex = 0,
      isComparing = False, modelGender = None, modelAge = None\<rparr>"


text \<open>Three uploaded files, two of them views of one product.\<close>

definition demoFiles :: "unit File list" where
  "demoFiles = [\<lparr>name = str ''SKU-1_frente.png'', contents = ()\<rparr>,
                \<lparr>name = str ''abc_1.png'', contents = ()\<rparr>,
                \<lparr>name = str '' sku 1_Costas_02.jpg'', contents = ()\<rparr>]"

definition demoEnv :: "unit uploadEnv" where
  "demoEnv = \<lparr>excelData = None, createObjectURL = (\<lambda>f. str ''blob:'' @ name f),
              idSuffix = (\<lambda>n. str ''0-0.5'')\<rparr>"










text \<open>A readable PNG file, and providers that answer with an image or block the prompt.\<close>

definition pngFile :: "unit File" where
  "pngFile = \<lparr>name = str ''a.png'', contents = ()\<rparr>"

definition imageResponse :: GenerateContentResponse where
  "imageResponse =
     \<lparr>promptFeedback = None,
      candidates = Some [\<lparr>content = Some \<lparr>parts = Some
         [\<lparr>inlineData = Some \<lparr>mimeType = Some (str ''image/png''), data = Some (str ''QUJD'')\<rparr>,
           partText = None\<rparr>]\<rparr>,
        finishReason = Some (str ''STOP'')\<rparr>],
      responseText = None\<rparr>"

definition blockedResponse :: GenerateContentResponse where
  "blockedResponse =
     \<lparr>promptFeedback = Some \<lparr>blockReason = Some (str ''SAFETY''), blockReasonMessage = None\<rparr>,
      candidates = None, responseText = None\<rparr>"

definition demoGenEnv :: "GenerateContentResponse \<Rightarrow> unit genEnv" where
  "demoGenEnv response =
     \<lparr>readAsDataURL = (\<lambda>f. Some (str ''data:image/png;base64,AAAA'')),
      getImageDimensions = (\<lambda>f. Some (numLit 10, numLit 10)),
      generateContent = (\<lambda>r. Some response),
      numberToString = (\<lambda>n. str ''0''),
      dateNow = 0,
      transactionCompletes = (\<lambda>l. True)\<rparr>"


text \<open>
  A gallery with the trash folder and a file of user u1, a file of user u2, and the stored
  files of both; \<open>doc\<close> accepts an id that is not empty and has no slash (code unit 47).
\<close>

definition demoStore :: store where
  "demoStore =
     \<lparr>gallery =
        [(str ''t1'', \<lparr>docUid = str ''u1'', docName = str ''Lixeira'',
                       parentId = Some (str ''root''), docType = FolderType,
                       storagePath = None\<rparr>),
         (str ''f1'', \<lparr>docUid = str ''u1'', docName = str ''a.png'',
                       parentId = Some (str ''root''), docType = FileType,
                       storagePath = Some (str ''u1/a.png'')\<rparr>),
         (str ''f2'', \<lparr>docUid = str ''u2'', docName = str ''b.png'',
                       parentId = Some (str ''root''), docType = FileType,
                       storagePath = Some (str ''u2/b.png'')\<rparr>)],
      bucket = {str ''u1/a.png'', str ''u2/b.png''}\<rparr>"

definition demoGalleryEnv :: galleryEnv where
  "demoGalleryEnv = \<lparr>validDocId = (\<lambda>i. i \<noteq> [] \<and> 47 \<notin> set i), deleteRejects = (\<lambda>p. False),
                    newDocId = (\<lambda>st. str ''new'')\<rparr>"


section \<open>Theorems\<close>

lemma canvasMask_neq_canvasBase:
  "canvasMask originalImage w h \<noteq> canvasBase originalImage w h"
  by (simp add: canvasMask_def canvasBase_def Let_def)

text \<open>
  C10. createMaskedImage is claimed to return a mask rendered from the mask canvas and so
  different from the base image. The code encodes the base canvas twice: for every image,
  every target size and every encoder the mask component equals the base component, while
  the mask canvas that was drawn (and is never encoded) is a different canvas.
\<close>

theorem createMaskedImage_mask_is_base:
  "maskImage (createMaskedImage toDataURL originalImage w h)
     = baseImage (createMaskedImage toDataURL originalImage w h)
   \<and> maskImage (createMaskedImage toDataURL originalImage w h)
     = toDataURL (canvasBase originalImage w h)
   \<and> canvasMask originalImage w h \<noteq> canvasBase originalImage w h"
  by (simp add: createMaskedImage_def canvasMask_neq_canvasBase)

lemma find_eq_filter_hd:
  "find P xs = (case filter P xs of [] \<Rightarrow> None | x # _ \<Rightarrow> Some x)"
  by (induction xs) auto

lemma findImagePart_blob:
  "(case findImagePart response of None \<Rightarrow> None | Some p \<Rightarrow> inlineData p)
     = firstImageBlob response"
  by (auto simp: findImagePart_def firstCandidateParts_def firstCandidate_def
        firstImageBlob_def find_eq_filter_hd split: option.splits list.splits)

lemma blockedBy_None: "blockedBy response = None \<longleftrightarrow> \<not> promptWasBlocked response"
  by (auto simp: blockedBy_def promptWasBlocked_def split: option.splits)

lemma handleApiResponse_no_image:
  "firstImageBlob response = None \<Longrightarrow> isThrow (handleApiResponse response context)"
  by (simp add: handleApiResponse_def findImagePart_blob isThrow_def split: option.splits)

lemma handleApiResponse_blocked:
  "promptWasBlocked response \<Longrightarrow> isThrow (handleApiResponse response context)"
  using blockedBy_None [of response]
  by (auto simp: handleApiResponse_def isThrow_def split: option.splits)

lemma handleApiResponse_image:
  "\<not> promptWasBlocked response \<Longrightarrow> firstImageBlob response = Some b \<Longrightarrow>
     handleApiResponse response context = Inr (dataUrl b)"
  using blockedBy_None [of response]
  by (simp add: handleApiResponse_def findImagePart_blob)

text \<open>
  C5. For every provider response, handleApiResponse either returns the data URL
  \<open>data:<mimeType>;base64,<data>\<close> of the first inlineData part of the first candidate or
  throws. It throws exactly when the prompt was blocked, or there is no image part and the
  finish reason is present and is not STOP, or there is no image part at all. A returned
  value is never anything but that data URL.
\<close>

theorem handleApiResponse_url_or_throw:
  "(isThrow (handleApiResponse response context) \<longleftrightarrow>
      promptWasBlocked response
      \<or> (firstImageBlob response = None \<and> stoppedEarly response)
      \<or> firstImageBlob response = None)
   \<and> (\<not> isThrow (handleApiResponse response context) \<longrightarrow>
        (\<exists>b. firstImageBlob response = Some b
           \<and> handleApiResponse response context
               = Inr (str ''data:'' @ tmpl (mimeType b) @ str '';base64,'' @ tmpl (data b))))"
proof (cases "promptWasBlocked response")
  case True
  then show ?thesis using handleApiResponse_blocked by blast
next
  case notBlocked: False
  show ?thesis
  proof (cases "firstImageBlob response")
    case None
    then show ?thesis using handleApiResponse_no_image by blast
  next
    case (Some b)
    with notBlocked have "handleApiResponse response context = Inr (dataUrl b)"
      by (rule handleApiResponse_image)
    with Some notBlocked show ?thesis by (simp add: isThrow_def dataUrl_def)
  qed
qed

theorem handleApiResponse_url_or_throw_witness:
  "\<not> isThrow (handleApiResponse
       \<lparr>promptFeedback = None,
        candidates = Some [\<lparr>content = Some \<lparr>parts = Some
           [\<lparr>inlineData = None, partText = Some (str ''ok'')\<rparr>,
            \<lparr>inlineData = Some \<lparr>mimeType = Some (str ''image/png''), data = Some (str ''QUJD'')\<rparr>,
             partText = None\<rparr>]\<rparr>,
          finishReason = Some (str ''STOP'')\<rparr>],
        responseText = None\<rparr> (str ''retouch''))
   \<and> handleApiResponse
       \<lparr>promptFeedback = None,
        candidates = Some [\<lparr>content = Some \<lparr>parts = Some
           [\<lparr>inlineData = None, partText = Some (str ''ok'')\<rparr>,
            \<lparr>inlineData = Some \<lparr>mimeType = Some (str ''image/png''), data = Some (str ''QUJD'')\<rparr>,
             partText = None\<rparr>]\<rparr>,
          finishReason = Some (str ''STOP'')\<rparr>],
        responseText = None\<rparr> (str ''retouch'')
     = Inr (str ''data:image/png;base64,QUJD'')"
  using handleApiResponse_url_or_throw
    [of "\<lparr>promptFeedback = None,
        candidates = Some [\<lparr>content = Some \<lparr>parts = Some
           [\<lparr>inlineData = None, partText = Some (str ''ok'')\<rparr>,
            \<lparr>inlineData = Some \<lparr>mimeType = Some (str ''image/png''), data = Some (str ''QUJD'')\<rparr>,
             partText = None\<rparr>]\<rparr>,
          finishReason = Some (str ''STOP'')\<rparr>],
        responseText = None\<rparr>" "str ''retouch''"]
  by (simp add: promptWasBlocked_def firstImageBlob_def str_def)

lemma floor_rat_numeral: "\<lfloor>numeral a / numeral b :: rat\<rfloor> = numeral a div numeral b"
  using floor_divide_of_int_eq [of "numeral a" "numeral b", where ?'a = rat] by simp

lemma floor_rat_one_numeral: "\<lfloor>1 / numeral b :: rat\<rfloor> = 1 div numeral b"
  using floor_divide_of_int_eq [of 1 "numeral b", where ?'a = rat] by simp

lemma ilog2_numeral:
  "ilog2 (numeral k) = (if numeral k < (2 :: nat) then 0 else Suc (ilog2 (numeral k div 2)))"
  "ilog2 0 = 0" "ilog2 1 = 0" "ilog2 (Suc 0) = 0"
  by (simp_all add: ilog2.simps [of "numeral k"] ilog2.simps [of 0] ilog2.simps [of 1]
      ilog2.simps [of "Suc 0"])

lemmas double_evals = numLit_def rounded_def roundMagnitude_def exponentOf_def roundHalfEven_def
  pow2_def ilog2_numeral Let_def floor_rat_numeral floor_rat_one_numeral zero_def
  numMul_def numDiv_def numAdd_def numSub_def numLess_def numLessEq_def mathMax_def mathMin_def
  numTruthy_def isZero_def

lemma prices:
  "PRICE_PER_INPUT_CHAR = Finite (6611313076017503 / 18889465931478580854784)"
  "PRICE_PER_OUTPUT_CHAR = Finite (6611313076017503 / 9444732965739290427392)"
  "PRICE_PER_INPUT_IMAGE = Finite (1152921504606847 / 9223372036854775808)"
  "PRICE_PER_OUTPUT_IMAGE = Finite (5764607523034235 / 288230376151711744)"
  "numLit (1 / 100000) = Finite (5902958103587057 / 590295810358705651712)"
  "numLit 0 = Finite 0"
  by (simp_all add: PRICE_PER_INPUT_CHAR_def PRICE_PER_OUTPUT_CHAR_def PRICE_PER_INPUT_IMAGE_def
      PRICE_PER_OUTPUT_IMAGE_def double_evals)

lemma cost_100_100:
  "calculateCost \<lparr>operation = Describe, inputChars = Some (numLit 100),
                   outputChars = Some (numLit 100), inputImages = None, outputImages = None\<rparr>
     = Finite (7747632510958011 / 73786976294838206464)"
  unfolding calculateCost_def prices by (simp add: double_evals)

lemma cost_inf:
  "calculateCost \<lparr>operation = Describe, inputChars = Some (Infinity False),
                   outputChars = Some (Infinity True), inputImages = None, outputImages = None\<rparr>
     = NaN"
  unfolding calculateCost_def prices by (simp add: double_evals)













lemma rounding_examples:
  "numLit (1 / 10) = Finite (3602879701896397 / 36028797018963968)"
  "numLit (- 7 / 10) = Finite (- (3152519739159347 / 4503599627370496))"
  "numLit (2 ^ 53 + 1) = Finite (2 ^ 53)"
  "numLit (2 ^ 53 + 3) = Finite (2 ^ 53 + 4)"
  "numDiv (numLit 1) (numLit 0) = Infinity False"
  "numDiv (numLit (- 1)) (numLit 0) = Infinity True"
  "numDiv (numLit 0) (numLit 0) = NaN"
  "numSub (numLit 1) (numLit 1) = Finite 0"
  "numAdd NegZero NegZero = NegZero"
  "numAdd (numLit (1 / 10)) (numLit (2 / 10)) = Finite (1351079888211149 / 4503599627370496)"
  by (simp_all add: double_evals)

text \<open>The ends of the range: overflow above the largest number, and the subnormal numbers.\<close>

lemma rounding_limits:
  "numLit (2 ^ 1024 - 2 ^ 970) = Infinity False"
  "numLit (2 ^ 1024 - 2 ^ 971) = Finite (2 ^ 1024 - 2 ^ 971)"
  "numLit (1 / 2 ^ 1075) = Finite 0"
  "numLit (- 3 / 2 ^ 1076) = Finite (- (1 / 2 ^ 1074))"
  "numLit (- 1 / 2 ^ 1076) = NegZero"
  by (simp_all add: double_evals)







lemma splitFrom_not_Nil: "splitFrom sep cur s \<noteq> []"
  by (induction sep cur s rule: splitFrom.induct) auto

lemma split_bearer_second:
  assumes "prefix (str ''Bearer '') h"
  shows "elemAt (split h (str ''Bearer '')) (Suc 0) = Some (bearerToken h)"
proof -
  from assms obtain c cs where h: "h = c # cs"
    by (cases h) (auto simp: str_def)
  have sep: "str ''Bearer '' \<noteq> []" "length (str ''Bearer '') = 7"
    by (simp_all add: str_def)
  from assms h sep have "split h (str ''Bearer '')
      = [] # splitFrom (str ''Bearer '') [] (drop 7 h)"
    by (simp add: split_def)
  moreover obtain t ts where "splitFrom (str ''Bearer '') [] (drop 7 h) = t # ts"
    using splitFrom_not_Nil by (cases "splitFrom (str ''Bearer '') [] (drop 7 h)") auto
  ultimately show ?thesis
    by (simp add: elemAt_def bearerToken_def)
qed

lemma splitFrom_no_sep:
  "(\<And>i. \<not> prefix sep (drop i s)) \<Longrightarrow> splitFrom sep cur s = [rev cur @ s]"
proof (induction s arbitrary: cur)
  case Nil
  then show ?case by simp
next
  case (Cons c cs)
  from Cons.prems [of 0] have n0: "\<not> prefix sep (c # cs)" by simp
  have "\<And>i. \<not> prefix sep (drop i cs)" using Cons.prems [of "Suc _"] by simp
  then have "splitFrom sep (c # cur) cs = [rev (c # cur) @ cs]" by (rule Cons.IH)
  with n0 show ?case by simp
qed

lemma bearerToken_plain:
  "(\<And>i. \<not> prefix (str ''Bearer '') (drop i t)) \<Longrightarrow> bearerToken (str ''Bearer '' @ t) = t"
  by (simp add: bearerToken_def splitFrom_no_sep) (simp add: str_def splitFrom_no_sep)

text \<open>
  C6. For every request through the auth middleware: when the Authorization header is
  absent or does not start with \<open>Bearer \<close>, the request is answered with 401 and the
  handler does not run; when the verification of the token fails, it is answered with 403
  and the handler does not run; otherwise the handler runs on the request with \<open>user\<close>
  set to the uid, email and role of the decoded token.
\<close>

theorem authMiddleware_outcomes:
  "((authorization req = None
       \<or> (\<exists>h. authorization req = Some h \<and> \<not> prefix (str ''Bearer '') h))
      \<longrightarrow> authMiddleware verifyIdToken req = Sent 401)
   \<and> (\<forall>h. authorization req = Some h \<and> prefix (str ''Bearer '') h
          \<and> verifyIdToken (bearerToken h) = None
        \<longrightarrow> authMiddleware verifyIdToken req = Sent 403)
   \<and> (\<forall>h d. authorization req = Some h \<and> prefix (str ''Bearer '') h
          \<and> verifyIdToken (bearerToken h) = Some d
        \<longrightarrow> authMiddleware verifyIdToken req
            = Next (req\<lparr>user := Some \<lparr>uid = uid d, email = email d, role = role d\<rparr>\<rparr>))"
proof (intro conjI allI impI)
  assume "authorization req = None
       \<or> (\<exists>h. authorization req = Some h \<and> \<not> prefix (str ''Bearer '') h)"
  then show "authMiddleware verifyIdToken req = Sent 401"
    by (auto simp: authMiddleware_def)
next
  fix h
  assume a: "authorization req = Some h \<and> prefix (str ''Bearer '') h
          \<and> verifyIdToken (bearerToken h) = None"
  then have "h \<noteq> []" by (auto simp: str_def)
  with a show "authMiddleware verifyIdToken req = Sent 403"
    by (simp add: authMiddleware_def split_bearer_second)
next
  fix h d
  assume a: "authorization req = Some h \<and> prefix (str ''Bearer '') h
          \<and> verifyIdToken (bearerToken h) = Some d"
  then have "h \<noteq> []" by (auto simp: str_def)
  with a show "authMiddleware verifyIdToken req
            = Next (req\<lparr>user := Some \<lparr>uid = uid d, email = email d, role = role d\<rparr>\<rparr>)"
    by (simp add: authMiddleware_def split_bearer_second)
qed

theorem authMiddleware_outcomes_witness:
  "authMiddleware demoVerify \<lparr>authorization = Some (str ''Basic abc''), user = None\<rparr> = Sent 401
   \<and> authMiddleware demoVerify \<lparr>authorization = Some (str ''Bearer bad''), user = None\<rparr> = Sent 403
   \<and> authMiddleware demoVerify \<lparr>authorization = Some (str ''Bearer good''), user = None\<rparr>
      = Next \<lparr>authorization = Some (str ''Bearer good''),
              user = Some \<lparr>uid = str ''u1'', email = None, role = Some (str ''admin'')\<rparr>\<rparr>"
proof -
  have t1: "bearerToken (str ''Bearer good'') = str ''good''" by code_simp
  have t2: "bearerToken (str ''Bearer bad'') = str ''bad''" by code_simp
  show ?thesis
    using authMiddleware_outcomes [of "\<lparr>authorization = Some (str ''Basic abc''), user = None\<rparr>" demoVerify]
      authMiddleware_outcomes [of "\<lparr>authorization = Some (str ''Bearer bad''), user = None\<rparr>" demoVerify]
      authMiddleware_outcomes [of "\<lparr>authorization = Some (str ''Bearer good''), user = None\<rparr>" demoVerify]
    by (simp add: t1 t2 demoVerify_def) (simp add: str_def)
qed

lemma findMetaValueIn_found:
  "findMetaValueIn lc row keys = Some v \<Longrightarrow>
     v \<noteq> [] \<and> (\<exists>k key. (k, v) \<in> set row \<and> key \<in> set keys \<and> lc k = lc key)"
proof (induction keys)
  case Nil
  then show ?case by simp
next
  case (Cons key keys)
  show ?case
  proof (cases "findMetaValueIn lc row keys = Some v")
    case True
    with Cons.IH show ?thesis by auto
  next
    case False
    with Cons.prems obtain metaKey where
      f: "find (\<lambda>k. lc k = lc key) (map fst row) = Some metaKey"
      and m: "map_of row metaKey = Some v" and v: "v \<noteq> []"
      by (auto split: option.splits if_splits)
    from f have "lc metaKey = lc key" by (auto simp: find_Some_iff)
    moreover from m have "(metaKey, v) \<in> set row" by (rule map_of_SomeD)
    ultimately show ?thesis using v by auto
  qed
qed

lemma findMetaValue_found:
  "findMetaValue lc item keys = Some v \<Longrightarrow>
     v \<noteq> [] \<and> (\<exists>row k key. metadata item = Some row \<and> (k, v) \<in> set row
                  \<and> key \<in> set keys \<and> lc k = lc key)"
  using findMetaValueIn_found [of lc _ keys v]
  by (auto simp: findMetaValue_def split: option.splits)

lemma itemGender_cascade:
  "itemGender lc globalGender item =
     (case modelGender item of
        Some own \<Rightarrow> own
      | None \<Rightarrow> (case spreadsheetGender lc item of
                   Some g \<Rightarrow> g
                 | None \<Rightarrow> globalGender))"
  by (auto simp: itemGender_def spreadsheetGender_def Let_def split: option.splits)

lemma itemAge_cascade:
  "itemAge lc globalGender globalAge item =
     (case ownAge item of
        Some own \<Rightarrow> own
      | None \<Rightarrow> (case spreadsheetAge lc item of
                   Some a \<Rightarrow> a
                 | None \<Rightarrow> ageFor globalAge (itemGender lc globalGender item)))"
  using findMetaValue_found [of lc item ageKeys]
  by (auto simp: itemAge_def ownAge_def spreadsheetAge_def Let_def split: option.splits)

text \<open>
  C2. For every queue item, processItem resolves the model gender and age by priority:
  the item's own setting when it is set; otherwise the value of the item's spreadsheet row
  (gender under the keys g\<^emph>\<open>e\<close>nero, genero, gender, sexo, mapped from male/masculino and
  female/feminino; age under idade, age, faixa et\<^emph>\<open>a\<close>ria, (anos)); otherwise the
  global setting, the global age being the one of the gender just resolved. A value found
  in the row is a non-empty value of a column whose lower-cased name is one of the keys.
\<close>

theorem processItem_settings_cascade:
  "itemGender lc globalGender item =
     (case modelGender item of
        Some own \<Rightarrow> own
      | None \<Rightarrow> (case spreadsheetGender lc item of
                   Some g \<Rightarrow> g
                 | None \<Rightarrow> globalGender))
   \<and> itemAge lc globalGender globalAge item =
     (case ownAge item of
        Some own \<Rightarrow> own
      | None \<Rightarrow> (case spreadsheetAge lc item of
                   Some a \<Rightarrow> a
                 | None \<Rightarrow> ageFor globalAge (itemGender lc globalGender item)))
   \<and> (\<forall>keys v. findMetaValue lc item keys = Some v \<longrightarrow>
         v \<noteq> [] \<and> (\<exists>row k key. metadata item = Some row \<and> (k, v) \<in> set row
                      \<and> key \<in> set keys \<and> lc k = lc key))"
  using itemGender_cascade itemAge_cascade findMetaValue_found by blast

theorem processItem_settings_cascade_witness:
  "itemGender asciiLower Male demoItem = Female
   \<and> itemAge asciiLower Male \<lparr>male = str ''30 anos'', female = str ''25 anos''\<rparr> demoItem
       = str ''8 anos''
   \<and> itemAge asciiLower Male \<lparr>male = str ''30 anos'', female = str ''25 anos''\<rparr>
        (demoItem\<lparr>metadata := None\<rparr>) = str ''30 anos''
   \<and> itemAge asciiLower Male \<lparr>male = str ''30 anos'', female = str ''25 anos''\<rparr>
        (demoItem\<lparr>metadata := None, modelGender := Some Female\<rparr>) = str ''25 anos''
   \<and> itemGender asciiLower Female (demoItem\<lparr>modelGender := Some Male\<rparr>) = Male
   \<and> itemAge asciiLower Male \<lparr>male = str ''30 anos'', female = str ''25 anos''\<rparr>
        (demoItem\<lparr>modelAge := Some (str ''40 anos'')\<rparr>) = str ''40 anos''
   \<and> itemAge asciiLower Male \<lparr>male = str ''30 anos'', female = str ''25 anos''\<rparr>
        (demoItem\<lparr>modelAge := Some []\<rparr>) = str ''8 anos''
   \<and> (\<exists>row k key. metadata demoItem = Some row \<and> (k, str ''8 anos'') \<in> set row
          \<and> key \<in> set ageKeys \<and> asciiLower k = asciiLower key)"
proof -
  let ?ages = "\<lparr>male = str ''30 anos'', female = str ''25 anos''\<rparr>"
  have own: "ownAge (demoItem\<lparr>modelAge := Some (str ''40 anos'')\<rparr>) = Some (str ''40 anos'')"
    "ownAge (demoItem\<lparr>modelAge := Some []\<rparr>) = None"
    by (simp_all add: ownAge_def str_def)
  have a': "spreadsheetAge asciiLower (demoItem\<lparr>modelAge := Some []\<rparr>) = Some (str ''8 anos'')"
    by (simp add: spreadsheetAge_def demoItem_def findMetaValue_def ageKeys_def str_def
          asciiLower_def)
  have o1: "itemAge asciiLower Male ?ages (demoItem\<lparr>modelAge := Some (str ''40 anos'')\<rparr>)
              = str ''40 anos''"
    using processItem_settings_cascade [of asciiLower Male
              "demoItem\<lparr>modelAge := Some (str ''40 anos'')\<rparr>" ?ages]
    by (simp only: own option.case)
  have o2: "itemAge asciiLower Male ?ages (demoItem\<lparr>modelAge := Some []\<rparr>) = str ''8 anos''"
    using processItem_settings_cascade [of asciiLower Male "demoItem\<lparr>modelAge := Some []\<rparr>"
              ?ages]
    by (simp only: own a' option.case)
  have g: "spreadsheetGender asciiLower demoItem = Some Female"
    by (simp add: spreadsheetGender_def demoItem_def findMetaValue_def genderKeys_def
          str_def asciiLower_def)
  have a: "spreadsheetAge asciiLower demoItem = Some (str ''8 anos'')"
    by (simp add: spreadsheetAge_def demoItem_def findMetaValue_def ageKeys_def str_def
          asciiLower_def)
  have n: "spreadsheetGender asciiLower (demoItem\<lparr>metadata := None\<rparr>) = None"
     "spreadsheetAge asciiLower (demoItem\<lparr>metadata := None\<rparr>) = None"
     "spreadsheetAge asciiLower (demoItem\<lparr>metadata := None, modelGender := Some Female\<rparr>) = None"
    by (simp_all add: spreadsheetGender_def spreadsheetAge_def findMetaValue_def)
  have o: "modelGender demoItem = None" "ownAge demoItem = None"
    "ownAge (demoItem\<lparr>metadata := None\<rparr>) = None"
    "modelGender (demoItem\<lparr>metadata := None\<rparr>) = None"
    "ownAge (demoItem\<lparr>metadata := None, modelGender := Some Female\<rparr>) = None"
    by (simp_all add: demoItem_def ownAge_def)
  show ?thesis
    using processItem_settings_cascade [of asciiLower Male demoItem
              "\<lparr>male = str ''30 anos'', female = str ''25 anos''\<rparr>"]
      processItem_settings_cascade [of asciiLower Male "demoItem\<lparr>metadata := None\<rparr>"
              "\<lparr>male = str ''30 anos'', female = str ''25 anos''\<rparr>"]
      processItem_settings_cascade [of asciiLower Male
              "demoItem\<lparr>metadata := None, modelGender := Some Female\<rparr>"
              "\<lparr>male = str ''30 anos'', female = str ''25 anos''\<rparr>"]
      processItem_settings_cascade [of asciiLower Female "demoItem\<lparr>modelGender := Some Male\<rparr>"
              "\<lparr>male = str ''30 anos'', female = str ''25 anos''\<rparr>"]
    by (simp add: g a [unfolded spreadsheetAge_def] n o o1 o2 ageFor_def)
       (simp add: spreadsheetAge_def a [unfolded spreadsheetAge_def])
qed

lemma firstOccurrences_snoc:
  "firstOccurrences (xs @ [x])
     = (if x \<in> set xs then firstOccurrences xs else firstOccurrences xs @ [x])"
  by (simp add: firstOccurrences_def)

lemma firstOccurrences_set: "set (firstOccurrences xs) = set xs"
  by (simp add: firstOccurrences_def)

lemma firstOccurrences_distinct: "distinct (firstOccurrences xs)"
  by (simp add: firstOccurrences_def)

lemma addToGroup_keys:
  "map fst (addToGroup k r f G)
     = (if k \<in> set (map fst G) then map fst G else map fst G @ [k])"
  by (induction G) force+

lemma addToGroup_map_of:
  "map_of (addToGroup k r f G)
     = (map_of G)(k \<mapsto> (case map_of G k of None \<Rightarrow> (r, [f]) | Some (raw, fs) \<Rightarrow> (raw, fs @ [f])))"
  by (induction G) (auto simp: fun_eq_iff)

lemma groupFiles_snoc:
  "groupFiles lc uc (files @ [f])
     = addToGroup (groupKeyOf lc uc f) (getBaseName lc (name f)) f (groupFiles lc uc files)"
  by (simp add: groupFiles_def)

lemma groupFiles_keys:
  "map fst (groupFiles lc uc files) = firstOccurrences (map (groupKeyOf lc uc) files)"
proof (induction files rule: rev_induct)
  case Nil
  then show ?case by (simp add: groupFiles_def firstOccurrences_def)
next
  case (snoc f files)
  then show ?case
    by (simp add: groupFiles_snoc addToGroup_keys firstOccurrences_snoc firstOccurrences_set)
qed

lemma groupFiles_map_of:
  "map_of (groupFiles lc uc files) k
     = (case filesWithKey lc uc files k of
          [] \<Rightarrow> None
        | f0 # _ \<Rightarrow> Some (getBaseName lc (name f0), filesWithKey lc uc files k))"
proof (induction files rule: rev_induct)
  case Nil
  then show ?case by (simp add: groupFiles_def filesWithKey_def)
next
  case (snoc f files)
  then show ?case
    by (auto simp: groupFiles_snoc addToGroup_map_of filesWithKey_def split: list.splits)
qed

lemma groupFiles_entry:
  assumes "(k, raw, fs) \<in> set (groupFiles lc uc files)"
  shows "fs = filesWithKey lc uc files k \<and> fs \<noteq> [] \<and> raw = getBaseName lc (name (hd fs))"
proof -
  have "distinct (map fst (groupFiles lc uc files))"
    by (simp add: groupFiles_keys firstOccurrences_distinct)
  with assms have "map_of (groupFiles lc uc files) k = Some (raw, fs)"
    by simp
  then show ?thesis
  proof (cases "filesWithKey lc uc files k")
    case Nil
    with \<open>map_of (groupFiles lc uc files) k = Some (raw, fs)\<close> show ?thesis
      by (simp add: groupFiles_map_of)
  next
    case (Cons f0 rest)
    with \<open>map_of (groupFiles lc uc files) k = Some (raw, fs)\<close>
    have "raw = getBaseName lc (name f0)" "fs = f0 # rest"
      by (simp_all add: groupFiles_map_of)
    with Cons show ?thesis by simp
  qed
qed

lemma groupFiles_files:
  "map (\<lambda>(k, raw, fs). fs) (groupFiles lc uc files)
     = map (filesWithKey lc uc files) (firstOccurrences (map (groupKeyOf lc uc) files))"
proof -
  have "map (\<lambda>(k, raw, fs). fs) (groupFiles lc uc files)
      = map (\<lambda>e. filesWithKey lc uc files (fst e)) (groupFiles lc uc files)"
    using groupFiles_entry [of _ _ _ lc uc files] by (intro map_cong) auto
  also have "\<dots> = map (filesWithKey lc uc files) (map fst (groupFiles lc uc files))"
    by simp
  finally show ?thesis by (simp only: groupFiles_keys)
qed

lemma groupFiles_raw:
  "map (\<lambda>(k, raw, fs). raw) (groupFiles lc uc files)
     = map (\<lambda>k. getBaseName lc (name (hd (filesWithKey lc uc files k))))
         (firstOccurrences (map (groupKeyOf lc uc) files))"
proof -
  have "map (\<lambda>(k, raw, fs). raw) (groupFiles lc uc files)
      = map (\<lambda>e. getBaseName lc (name (hd (filesWithKey lc uc files (fst e)))))
          (groupFiles lc uc files)"
    using groupFiles_entry [of _ _ _ lc uc files] by (intro map_cong) auto
  also have "\<dots> = map (\<lambda>k. getBaseName lc (name (hd (filesWithKey lc uc files k))))
                    (map fst (groupFiles lc uc files))"
    by (simp add: comp_def)
  finally show ?thesis by (simp only: groupFiles_keys)
qed

lemma newItem_fields:
  "availableFiles (newItem env n (k, raw, fs)) = fs"
  "baseName (newItem env n (k, raw, fs)) = raw"
  by (simp_all add: newItem_def)

lemma map_enumerate_snd: "map (\<lambda>(n, e). g e) (enumerate i xs) = map g xs"
  by (induction xs arbitrary: i) auto

lemma newItems_availableFiles:
  "map availableFiles (newItems lc uc env files)
     = map (filesWithKey lc uc files) (firstOccurrences (map (groupKeyOf lc uc) files))"
proof -
  have "map availableFiles (newItems lc uc env files)
      = map (\<lambda>(n, e). (\<lambda>(k, raw, fs). fs) e) (enumerate 0 (groupFiles lc uc files))"
    by (auto simp: newItems_def newItem_fields)
  then show ?thesis by (simp only: map_enumerate_snd groupFiles_files)
qed

lemma newItems_baseName:
  "map baseName (newItems lc uc env files)
     = map (\<lambda>k. getBaseName lc (name (hd (filesWithKey lc uc files k))))
         (firstOccurrences (map (groupKeyOf lc uc) files))"
proof -
  have "map baseName (newItems lc uc env files)
      = map (\<lambda>(n, e). (\<lambda>(k, raw, fs). raw) e) (enumerate 0 (groupFiles lc uc files))"
    by (auto simp: newItems_def newItem_fields)
  then show ?thesis by (simp only: map_enumerate_snd groupFiles_raw)
qed

lemma newItems_length:
  "length (newItems lc uc env files) = card (groupKeyOf lc uc ` set files)"
proof -
  have "length (newItems lc uc env files) = length (map availableFiles (newItems lc uc env files))"
    by simp
  also have "\<dots> = length (firstOccurrences (map (groupKeyOf lc uc) files))"
    by (simp only: newItems_availableFiles length_map)
  also have "\<dots> = card (set (firstOccurrences (map (groupKeyOf lc uc) files)))"
    by (simp add: distinct_card firstOccurrences_distinct)
  finally show ?thesis by (simp add: firstOccurrences_set)
qed

lemma newItems_same_group:
  assumes f: "f \<in> set files" and g: "g \<in> set files"
  shows "(\<exists>item \<in> set (newItems lc uc env files).
            f \<in> set (availableFiles item) \<and> g \<in> set (availableFiles item))
         \<longleftrightarrow> groupKeyOf lc uc f = groupKeyOf lc uc g"
proof -
  have s: "availableFiles ` set (newItems lc uc env files)
         = filesWithKey lc uc files ` groupKeyOf lc uc ` set files"
    using arg_cong [OF newItems_availableFiles [of lc uc env files], of set]
    by (simp add: firstOccurrences_set)
  show ?thesis
  proof
    assume "\<exists>item \<in> set (newItems lc uc env files).
            f \<in> set (availableFiles item) \<and> g \<in> set (availableFiles item)"
    then obtain item where i: "item \<in> set (newItems lc uc env files)"
      and fi: "f \<in> set (availableFiles item)" and gi: "g \<in> set (availableFiles item)"
      by blast
    from i s obtain k where "availableFiles item = filesWithKey lc uc files k"
      by (metis (no_types, lifting) image_iff)
    with fi gi show "groupKeyOf lc uc f = groupKeyOf lc uc g"
      by (simp add: filesWithKey_def)
  next
    assume e: "groupKeyOf lc uc f = groupKeyOf lc uc g"
    from f have "filesWithKey lc uc files (groupKeyOf lc uc f)
        \<in> availableFiles ` set (newItems lc uc env files)"
      unfolding s by blast
    then obtain item where i: "item \<in> set (newItems lc uc env files)"
      and a: "availableFiles item = filesWithKey lc uc files (groupKeyOf lc uc f)"
      by (metis (no_types, lifting) image_iff)
    from f g e have "f \<in> set (availableFiles item) \<and> g \<in> set (availableFiles item)"
      unfolding a by (simp add: filesWithKey_def)
    with i show "\<exists>item \<in> set (newItems lc uc env files).
            f \<in> set (availableFiles item) \<and> g \<in> set (availableFiles item)"
      by blast
  qed
qed



lemma stripSuffixes_fixpoint: "stripOnce lc (stripSuffixes lc b) = None"
proof (induction lc b rule: stripSuffixes.induct)
  case (1 lc baseName)
  show ?case
  proof (cases "stripOnce lc baseName")
    case None
    then show ?thesis by (simp add: stripSuffixes.simps [of lc baseName])
  next
    case (Some b')
    with "1.IH" [of b'] show ?thesis by (simp add: stripSuffixes.simps [of lc baseName])
  qed
qed

lemma stripOnce_prefix: "stripOnce lc b = Some b' \<Longrightarrow> prefix b' b"
  by (auto simp: stripOnce_def sliceOff_def Let_def take_is_prefix
        split: if_splits option.splits)

lemma stripSuffixes_prefix: "prefix (stripSuffixes lc b) b"
proof (induction lc b rule: stripSuffixes.induct)
  case (1 lc baseName)
  show ?case
  proof (cases "stripOnce lc baseName")
    case None
    then show ?thesis by (simp add: stripSuffixes.simps [of lc baseName])
  next
    case (Some b')
    with "1.IH" [of b'] have "prefix (stripSuffixes lc baseName) b'"
      by (simp add: stripSuffixes.simps [of lc baseName])
    moreover from Some have "prefix b' baseName" by (rule stripOnce_prefix)
    ultimately show ?thesis by (rule prefix_order.trans)
  qed
qed

lemma textSuffixes_nonempty: "sfx \<in> set textSuffixes \<Longrightarrow> sfx \<noteq> []"
  by (auto simp: textSuffixes_def str_def)

lemma sliceOff_same: "0 < n \<Longrightarrow> sliceOff b n = b \<longleftrightarrow> b = []"
  by (cases b) (auto simp: sliceOff_def take_all_iff)

lemma stripOnce_None:
  "stripOnce lc b = None \<longleftrightarrow>
     numericMatch b = None
     \<and> (b = [] \<or> (\<forall>sfx \<in> set textSuffixes. \<not> endsWith (lc b) sfx))"
proof (cases "find (\<lambda>sfx. endsWith (lc b) sfx) textSuffixes")
  case None
  then have "\<forall>sfx \<in> set textSuffixes. \<not> endsWith (lc b) sfx"
    by (simp add: find_None_iff)
  with None show ?thesis
    by (auto simp: stripOnce_def split: option.splits)
next
  case (Some sfx)
  then have m: "sfx \<in> set textSuffixes" "endsWith (lc b) sfx"
    by (auto simp: find_Some_iff)
  then have "0 < length sfx" using textSuffixes_nonempty by auto
  then have same: "sliceOff b (length sfx) = b \<longleftrightarrow> b = []" by (rule sliceOff_same)
  show ?thesis
  proof (cases "b = []")
    case True
    with Some same show ?thesis by (simp add: stripOnce_def numericMatch_def)
  next
    case False
    with Some same m show ?thesis by (auto simp: stripOnce_def)
  qed
qed

lemma not_isDashOrSpace_underscore: "\<not> isDashOrSpace 95"
  by (simp add: isDashOrSpace_def isSpace_def)

lemma collapseRuns_clean: "c \<in> set (collapseRuns s) \<Longrightarrow> \<not> isDashOrSpace c"
proof (induction s arbitrary: c rule: collapseRuns.induct)
  case 1
  then show ?case by simp
next
  case (2 d ds)
  show ?case
  proof (cases "isDashOrSpace d")
    case True
    with "2.prems" have "c = 95 \<or> c \<in> set (collapseRuns (dropWhile isDashOrSpace ds))"
      by simp
    then show ?thesis
    proof
      assume "c = 95"
      then show ?thesis by (simp add: not_isDashOrSpace_underscore)
    next
      assume "c \<in> set (collapseRuns (dropWhile isDashOrSpace ds))"
      with True show ?thesis by (rule "2.IH"(1))
    qed
  next
    case False
    with "2.prems" have "c = d \<or> c \<in> set (collapseRuns ds)" by simp
    then show ?thesis
    proof
      assume "c = d"
      with False show ?thesis by simp
    next
      assume "c \<in> set (collapseRuns ds)"
      with False show ?thesis by (rule "2.IH"(2))
    qed
  qed
qed

text \<open>
  C3. For every non-empty list of uploaded files, handleFiles appends one queue item per
  group, and two files are in the same item exactly when normalizeSku(getBaseName(name))
  is equal for their names: the items' file lists are the classes of that key, in the order
  of its first occurrences. getBaseName strips the extension, trims, and then strips view
  suffixes and numeric suffixes of one or two digits from the end until none is left;
  normalizeSku trims, turns every run of dashes and white space into one underscore and
  upper-cases.
\<close>

theorem handleFiles_groups_by_sku:
  "files \<noteq> [] \<longrightarrow>
     handleFiles lc uc env (Some files) queue = queue @ newItems lc uc env files
     \<and> length (newItems lc uc env files) = card (groupKeyOf lc uc ` set files)
     \<and> map availableFiles (newItems lc uc env files)
         = map (filesWithKey lc uc files) (firstOccurrences (map (groupKeyOf lc uc) files))
     \<and> (\<forall>f \<in> set files. \<forall>g \<in> set files.
           (\<exists>item \<in> set (newItems lc uc env files).
               f \<in> set (availableFiles item) \<and> g \<in> set (availableFiles item))
           \<longleftrightarrow> normalizeSku uc (getBaseName lc (name f))
               = normalizeSku uc (getBaseName lc (name g)))
     \<and> (\<forall>f \<in> set files.
           getBaseName lc (name f) = stripSuffixes lc (trim (stripExtension (name f)))
           \<and> prefix (getBaseName lc (name f)) (trim (stripExtension (name f)))
           \<and> stripOnce lc (getBaseName lc (name f)) = None
           \<and> normalizeSku uc (getBaseName lc (name f))
               = uc (collapseRuns (trim (getBaseName lc (name f))))
           \<and> (\<forall>c \<in> set (collapseRuns (trim (getBaseName lc (name f)))). \<not> isDashOrSpace c))"
proof (intro impI conjI ballI)
  assume "files \<noteq> []"
  then show "handleFiles lc uc env (Some files) queue = queue @ newItems lc uc env files"
    by (simp add: handleFiles_def)
next
  show "length (newItems lc uc env files) = card (groupKeyOf lc uc ` set files)"
    by (rule newItems_length)
next
  show "map availableFiles (newItems lc uc env files)
         = map (filesWithKey lc uc files) (firstOccurrences (map (groupKeyOf lc uc) files))"
    by (rule newItems_availableFiles)
next
  fix f g assume "f \<in> set files" "g \<in> set files"
  then show "(\<exists>item \<in> set (newItems lc uc env files).
               f \<in> set (availableFiles item) \<and> g \<in> set (availableFiles item))
           \<longleftrightarrow> normalizeSku uc (getBaseName lc (name f))
               = normalizeSku uc (getBaseName lc (name g))"
    using newItems_same_group [of f files g lc uc env] by (simp add: groupKeyOf_def)
next
  fix f
  show "getBaseName lc (name f) = stripSuffixes lc (trim (stripExtension (name f)))"
    by (simp add: getBaseName_def)
next
  fix f
  show "prefix (getBaseName lc (name f)) (trim (stripExtension (name f)))"
    by (simp add: getBaseName_def stripSuffixes_prefix)
next
  fix f
  show "stripOnce lc (getBaseName lc (name f)) = None"
    by (simp add: getBaseName_def stripSuffixes_fixpoint)
next
  fix f
  show "normalizeSku uc (getBaseName lc (name f))
               = uc (collapseRuns (trim (getBaseName lc (name f))))"
    by (simp add: normalizeSku_def)
next
  fix f c
  assume "c \<in> set (collapseRuns (trim (getBaseName lc (name f))))"
  then show "\<not> isDashOrSpace c" by (rule collapseRuns_clean)
qed




lemmas sku_evals = trim_def isSpace_def str_def getBaseName_def stripExtension_def stripOnce_def
  textSuffixes_def stripSuffixes.simps endsWith_def asciiLower_def asciiUpper_def
  numericMatch_def sliceOff_def isDigit_def normalizeSku_def isDashOrSpace_def groupKeyOf_def
  Let_def

theorem handleFiles_groups_by_sku_witness:
  "map availableFiles (handleFiles asciiLower asciiUpper demoEnv (Some demoFiles) [])
     = [[\<lparr>name = str ''SKU-1_frente.png'', contents = ()\<rparr>,
         \<lparr>name = str '' sku 1_Costas_02.jpg'', contents = ()\<rparr>],
        [\<lparr>name = str ''abc_1.png'', contents = ()\<rparr>]]
   \<and> length (handleFiles asciiLower asciiUpper demoEnv (Some demoFiles) []) = 2
   \<and> getBaseName asciiLower (str '' sku 1_Costas_02.jpg'') = str ''sku 1''
   \<and> normalizeSku asciiUpper (str ''sku 1'') = str ''SKU_1''"
proof -
  have k: "map (groupKeyOf asciiLower asciiUpper) demoFiles
      = [str ''SKU_1'', str ''ABC'', str ''SKU_1'']"
    by (simp add: sku_evals demoFiles_def)
  have ne: "demoFiles \<noteq> []" by (simp add: demoFiles_def)
  have b: "getBaseName asciiLower (str '' sku 1_Costas_02.jpg'') = str ''sku 1''"
    by (simp add: sku_evals)
  have n: "normalizeSku asciiUpper (str ''sku 1'') = str ''SKU_1''"
    by (simp add: sku_evals)
  have fo: "firstOccurrences [str ''SKU_1'', str ''ABC'', str ''SKU_1'']
      = [str ''SKU_1'', str ''ABC'']"
    by (simp add: firstOccurrences_def str_def)
  have fk: "filesWithKey asciiLower asciiUpper demoFiles (str ''SKU_1'')
       = [\<lparr>name = str ''SKU-1_frente.png'', contents = ()\<rparr>,
         \<lparr>name = str '' sku 1_Costas_02.jpg'', contents = ()\<rparr>]"
     "filesWithKey asciiLower asciiUpper demoFiles (str ''ABC'')
       = [\<lparr>name = str ''abc_1.png'', contents = ()\<rparr>]"
    by (simp_all add: filesWithKey_def demoFiles_def sku_evals)
  from handleFiles_groups_by_sku [of demoFiles asciiLower asciiUpper demoEnv "[]"] ne
  have h: "handleFiles asciiLower asciiUpper demoEnv (Some demoFiles) []
         = [] @ newItems asciiLower asciiUpper demoEnv demoFiles"
    and m: "map availableFiles (newItems asciiLower asciiUpper demoEnv demoFiles)
         = map (filesWithKey asciiLower asciiUpper demoFiles)
             (firstOccurrences (map (groupKeyOf asciiLower asciiUpper) demoFiles))"
    by blast+
  have m': "map availableFiles (newItems asciiLower asciiUpper demoEnv demoFiles)
     = [[\<lparr>name = str ''SKU-1_frente.png'', contents = ()\<rparr>,
         \<lparr>name = str '' sku 1_Costas_02.jpg'', contents = ()\<rparr>],
        [\<lparr>name = str ''abc_1.png'', contents = ()\<rparr>]]"
    unfolding m k fo by (simp only: list.map fk)
  have "length (map availableFiles (newItems asciiLower asciiUpper demoEnv demoFiles)) = 2"
    unfolding m' by simp
  then have l: "length (newItems asciiLower asciiUpper demoEnv demoFiles) = 2"
    by (simp only: length_map)
  show ?thesis
    unfolding h append_Nil by (intro conjI m' l b n)
qed




































lemma generateEditedImage_no_selection:
  "generateEditedImage env imageFile prompt None None imageName' userId' projectId' st
     = (case fileToPart env imageFile of
          Inl e \<Rightarrow> (Inl e, st)
        | Inr p \<Rightarrow> (Inl NeedHotspotOrMask, st))"
  by (simp add: generateEditedImage_def editParts_def split: sum.splits)

lemma logCost_one:
  "logCost env imageName' op c userId' d projectId' st = Inr st2 \<Longrightarrow>
     generationCalls st2 = generationCalls st \<and> (\<exists>l. costLogs st2 = costLogs st @ [l])"
  by (auto simp: logCost_def Let_def split: if_splits)

lemma generateEditedImage_effects:
  assumes "generateEditedImage env imageFile prompt hs maskFile imageName' userId' projectId' st = (r, st')"
  shows "(isThrow r \<and> st' = st)
       \<or> (isThrow r \<and> costLogs st' = costLogs st
           \<and> (\<exists>req. generationCalls st' = generationCalls st @ [req]))
       \<or> (\<not> isThrow r
           \<and> (\<exists>req. generationCalls st' = generationCalls st @ [req])
           \<and> (\<exists>l. costLogs st' = costLogs st @ [l]))"
proof (cases "fileToPart env imageFile")
  case (Inl e)
  with assms show ?thesis by (auto simp: generateEditedImage_def isThrow_def)
next
  case (Inr imagePart)
  note ip = this
  show ?thesis
  proof (cases "editParts env imageFile imagePart prompt hs maskFile")
    case (Inl e)
    with ip assms show ?thesis by (auto simp: generateEditedImage_def isThrow_def)
  next
    case (Inr t)
    then obtain reqParts fullPrompt nImages where
      ep: "editParts env imageFile imagePart prompt hs maskFile = Inr (reqParts, fullPrompt, nImages)"
      by (cases t) auto
    show ?thesis
    proof (cases "generateContent env reqParts")
      case None
      with ip ep assms show ?thesis
        by (auto simp: generateEditedImage_def isThrow_def Let_def)
    next
      case (Some response)
      note gc = this
      show ?thesis
      proof (cases "handleApiResponse response (str ''retouch'')")
        case (Inl e)
        with ip ep gc assms show ?thesis
          by (auto simp: generateEditedImage_def isThrow_def Let_def)
      next
        case (Inr result)
        note har = this
        let ?st1 = "st\<lparr>generationCalls := generationCalls st @ [reqParts]\<rparr>"
        let ?n = "numLit (of_nat (length fullPrompt))"
        let ?c = "calculateCost \<lparr>operation = Retouch,
                    inputChars = Some ?n, outputChars = None,
                    inputImages = Some nImages, outputImages = Some (numLit 1)\<rparr>"
        let ?d = "numberToString env nImages @ str '' imgs in, 1 img out, ''
                  @ numberToString env ?n @ str '' chars''"
        show ?thesis
        proof (cases "logCost env imageName' Retouch ?c userId' (Some ?d) projectId' ?st1")
          case (Inl e)
          with ip ep gc har assms show ?thesis
            by (auto simp: generateEditedImage_def isThrow_def Let_def)
        next
          case (Inr st2)
          from logCost_one [OF Inr] have
            "generationCalls st2 = generationCalls st @ [reqParts]"
            "\<exists>l. costLogs st2 = costLogs st @ [l]"
            by simp_all
          moreover from ip ep gc har Inr assms have "r = Inr result" "st' = st2"
            by (auto simp: generateEditedImage_def Let_def)
          ultimately show ?thesis by (auto simp: isThrow_def)
        qed
      qed
    qed
  qed
qed


text \<open>
  C8 (amended). With both hotspot and mask null, generateEditedImage throws before it
  issues a generation request or logs a cost, and the error is the one asking for a hotspot
  or a mask whenever the image file could be read into a part. With a mask or a hotspot it
  issues at most one generation request and logs at most one cost record; when it returns
  a result it has issued exactly one request and logged exactly one cost record, and when
  it throws it has logged no cost.
\<close>

theorem generateEditedImage_calls_and_costs:
  assumes "generateEditedImage env imageFile prompt hs maskFile imageName' userId' projectId' st
             = (r, st')"
  shows "(hs = None \<and> maskFile = None \<longrightarrow>
            isThrow r \<and> st' = st
            \<and> (\<forall>part. fileToPart env imageFile = Inr part \<longrightarrow> r = Inl NeedHotspotOrMask))
       \<and> (generationCalls st' = generationCalls st
            \<or> (\<exists>req. generationCalls st' = generationCalls st @ [req]))
       \<and> (costLogs st' = costLogs st \<or> (\<exists>l. costLogs st' = costLogs st @ [l]))
       \<and> (\<not> isThrow r \<longrightarrow>
            (\<exists>req. generationCalls st' = generationCalls st @ [req])
            \<and> (\<exists>l. costLogs st' = costLogs st @ [l]))
       \<and> (isThrow r \<longrightarrow> costLogs st' = costLogs st)"
proof -
  have none: "hs = None \<and> maskFile = None \<longrightarrow>
            isThrow r \<and> st' = st
            \<and> (\<forall>part. fileToPart env imageFile = Inr part \<longrightarrow> r = Inl NeedHotspotOrMask)"
  proof
    assume "hs = None \<and> maskFile = None"
    with assms have "(r, st') = (case fileToPart env imageFile of
          Inl e \<Rightarrow> (Inl e, st)
        | Inr p \<Rightarrow> (Inl NeedHotspotOrMask, st))"
      by (simp add: generateEditedImage_no_selection)
    then show "isThrow r \<and> st' = st
            \<and> (\<forall>part. fileToPart env imageFile = Inr part \<longrightarrow> r = Inl NeedHotspotOrMask)"
      by (cases "fileToPart env imageFile") (auto simp: isThrow_def)
  qed
  from generateEditedImage_effects [OF assms] none show ?thesis
    by auto
qed

lemmas edit_evals = generateEditedImage_def fileToPart_def editParts_def logCost_def
  demoGenEnv_def pngFile_def split_def str_def handleApiResponse_def blockedBy_def
  findImagePart_def firstCandidateParts_def firstCandidate_def firstFinishReason_def
  imageResponse_def blockedResponse_def dataUrl_def isLineTerminator_def Let_def isThrow_def

text \<open>
  C8 as stated fails: with a mask supplied and a provider that blocks the prompt, one
  generation request is issued and no cost record is logged.
\<close>

theorem generateEditedImage_one_cost_counterexample:
  "isThrow (fst (generateEditedImage (demoGenEnv blockedResponse) pngFile (str ''fix'') None
                   (Some pngFile) (str ''a.png'') (str ''u1'') (str ''root'')
                   \<lparr>generationCalls = [], costLogs = []\<rparr>))
   \<and> length (generationCalls (snd (generateEditedImage (demoGenEnv blockedResponse) pngFile
                   (str ''fix'') None (Some pngFile) (str ''a.png'') (str ''u1'') (str ''root'')
                   \<lparr>generationCalls = [], costLogs = []\<rparr>))) = 1
   \<and> length (costLogs (snd (generateEditedImage (demoGenEnv blockedResponse) pngFile
                   (str ''fix'') None (Some pngFile) (str ''a.png'') (str ''u1'') (str ''root'')
                   \<lparr>generationCalls = [], costLogs = []\<rparr>))) = 0"
  by (simp add: edit_evals)

theorem generateEditedImage_calls_and_costs_witness:
  "fst (generateEditedImage (demoGenEnv imageResponse) pngFile (str ''fix'') None
                   (Some pngFile) (str ''a.png'') (str ''u1'') (str ''root'')
                   \<lparr>generationCalls = [], costLogs = []\<rparr>)
     = Inr (str ''data:image/png;base64,QUJD'')
   \<and> length (generationCalls (snd (generateEditedImage (demoGenEnv imageResponse) pngFile
                   (str ''fix'') None (Some pngFile) (str ''a.png'') (str ''u1'') (str ''root'')
                   \<lparr>generationCalls = [], costLogs = []\<rparr>))) = 1
   \<and> length (costLogs (snd (generateEditedImage (demoGenEnv imageResponse) pngFile
                   (str ''fix'') None (Some pngFile) (str ''a.png'') (str ''u1'') (str ''root'')
                   \<lparr>generationCalls = [], costLogs = []\<rparr>))) = 1
   \<and> generateEditedImage (demoGenEnv imageResponse) pngFile (str ''fix'') None None
         (str ''a.png'') (str ''u1'') (str ''root'') \<lparr>generationCalls = [], costLogs = []\<rparr>
       = (Inl NeedHotspotOrMask, \<lparr>generationCalls = [], costLogs = []\<rparr>)"
proof -
  let ?R = "generateEditedImage (demoGenEnv imageResponse) pngFile (str ''fix'') None
                   (Some pngFile) (str ''a.png'') (str ''u1'') (str ''root'')
                   \<lparr>generationCalls = [], costLogs = []\<rparr>"
  let ?N = "generateEditedImage (demoGenEnv imageResponse) pngFile (str ''fix'') None None
         (str ''a.png'') (str ''u1'') (str ''root'') \<lparr>generationCalls = [], costLogs = []\<rparr>"
  have r: "fst ?R = Inr (str ''data:image/png;base64,QUJD'')"
    by (simp add: edit_evals)
  then have nt: "\<not> isThrow (fst ?R)" by (simp add: isThrow_def)
  have p: "fileToPart (demoGenEnv imageResponse) pngFile
             = Inr (InlineDataPart (str ''image/png'') (str ''AAAA''))"
    by (simp add: edit_evals)
  have "?R = (fst ?R, snd ?R)" by simp
  from generateEditedImage_calls_and_costs [OF this] nt
  obtain req l where "generationCalls (snd ?R) = [] @ [req]" "costLogs (snd ?R) = [] @ [l]"
    by auto
  then have c: "length (generationCalls (snd ?R)) = 1" "length (costLogs (snd ?R)) = 1"
    by simp_all
  have "?N = (fst ?N, snd ?N)" by simp
  from generateEditedImage_calls_and_costs [OF this] p
  have "fst ?N = Inl NeedHotspotOrMask" "snd ?N = \<lparr>generationCalls = [], costLogs = []\<rparr>"
    by simp_all
  then have n: "?N = (Inl NeedHotspotOrMask, \<lparr>generationCalls = [], costLogs = []\<rparr>)"
    by (simp add: prod_eq_iff)
  show ?thesis using r c n by (intro conjI)
qed

lemma filter_removedIds:
  assumes "gallery st' = filter (\<lambda>e. fst e \<notin> R) (gallery st)"
  shows "gallery st' = filter (\<lambda>e. fst e \<notin> removedIds st st') (gallery st)"
proof -
  have "\<And>e. e \<in> set (gallery st) \<Longrightarrow> (fst e \<notin> R) = (fst e \<notin> removedIds st st')"
    unfolding removedIds_def assms by force
  then have "filter (\<lambda>e. fst e \<notin> R) (gallery st)
           = filter (\<lambda>e. fst e \<notin> removedIds st st') (gallery st)"
    by (intro filter_cong) auto
  with assms show ?thesis by simp
qed

lemma hardDeletes_refl: "hardDeletes env st st"
proof -
  have "gallery st = filter (\<lambda>e. fst e \<notin> {}) (gallery st)" by simp
  then have "gallery st = filter (\<lambda>e. fst e \<notin> removedIds st st) (gallery st)"
    by (rule filter_removedIds)
  moreover have "removedIds st st = {}" by (simp add: removedIds_def)
  ultimately show ?thesis by (simp add: hardDeletes_def list_all_iff)
qed

lemma fileGone_mono: "fileGone env d st \<Longrightarrow> bucket st' \<subseteq> bucket st \<Longrightarrow> fileGone env d st'"
  by (auto simp: fileGone_def split: option.splits)

lemma hardDeletes_trans:
  assumes a: "hardDeletes env st st1" and b: "hardDeletes env st1 st2"
  shows "hardDeletes env st st2"
proof -
  let ?R1 = "removedIds st st1" and ?R2 = "removedIds st1 st2"
  from a have g1: "gallery st1 = filter (\<lambda>e. fst e \<notin> ?R1) (gallery st)"
    and b1: "bucket st1 \<subseteq> bucket st"
    and f1: "\<And>e. e \<in> set (gallery st) \<Longrightarrow> fst e \<in> ?R1 \<Longrightarrow> isFileDoc (snd e)
                 \<Longrightarrow> fileGone env (snd e) st1"
    by (auto simp: hardDeletes_def list_all_iff)
  from b have g2: "gallery st2 = filter (\<lambda>e. fst e \<notin> ?R2) (gallery st1)"
    and b2: "bucket st2 \<subseteq> bucket st1"
    and f2: "\<And>e. e \<in> set (gallery st1) \<Longrightarrow> fst e \<in> ?R2 \<Longrightarrow> isFileDoc (snd e)
                 \<Longrightarrow> fileGone env (snd e) st2"
    by (auto simp: hardDeletes_def list_all_iff)
  have "gallery st2 = filter (\<lambda>e. fst e \<notin> ?R1 \<union> ?R2) (gallery st)"
    unfolding g2 g1 by (simp add: conj_commute)
  then have g: "gallery st2 = filter (\<lambda>e. fst e \<notin> removedIds st st2) (gallery st)"
    by (rule filter_removedIds)
  have f: "fileGone env (snd e) st2"
    if e: "e \<in> set (gallery st)" and r: "fst e \<in> removedIds st st2" and fd: "isFileDoc (snd e)"
    for e
  proof (cases "fst e \<in> ?R1")
    case True
    with e fd have "fileGone env (snd e) st1" by (simp add: f1)
    then show ?thesis using b2 by (rule fileGone_mono)
  next
    case False
    with e have e1: "e \<in> set (gallery st1)" unfolding g1 by simp
    with r have "fst e \<in> ?R2" by (force simp: removedIds_def)
    with e1 fd show ?thesis by (simp add: f2)
  qed
  from g b1 b2 f show ?thesis
    by (auto simp: hardDeletes_def list_all_iff)
qed

lemma hardDeletes_map_of:
  assumes "hardDeletes env st st'"
  shows "map_of (gallery st') i = (if i \<in> removedIds st st' then None else map_of (gallery st) i)"
proof -
  have m: "map_of (filter (\<lambda>e. fst e \<notin> R) xs) i = (if i \<in> R then None else map_of xs i)"
    for R and xs :: "(jsstring \<times> Doc) list"
    by (induction xs) auto
  from assms have "gallery st' = filter (\<lambda>e. fst e \<notin> removedIds st st') (gallery st)"
    by (simp add: hardDeletes_def)
  then show ?thesis using m [of "removedIds st st'" "gallery st"] by simp
qed

lemma hardDeletes_distinct:
  "hardDeletes env st st' \<Longrightarrow> distinct (map fst (gallery st)) \<Longrightarrow> distinct (map fst (gallery st'))"
  by (auto simp: hardDeletes_def intro: distinct_map_filter)

lemma hardDeletes_subset: "hardDeletes env st st' \<Longrightarrow> set (gallery st') \<subseteq> set (gallery st)"
proof -
  assume "hardDeletes env st st'"
  then have "gallery st' = filter (\<lambda>e. fst e \<notin> removedIds st st') (gallery st)"
    by (simp add: hardDeletes_def)
  then have "set (gallery st') = {e \<in> set (gallery st). fst e \<notin> removedIds st st'}"
    by (metis set_filter)
  then show ?thesis by blast
qed

lemma deleteStoredFile_gallery [simp]: "gallery (deleteStoredFile env d st) = gallery st"
  by (simp add: deleteStoredFile_def split: option.splits)

lemma deleteStoredFile_bucket: "bucket (deleteStoredFile env d st) \<subseteq> bucket st"
  by (auto simp: deleteStoredFile_def split: option.splits)

lemma deleteStoredFile_gone: "fileGone env d (deleteStoredFile env d st)"
  by (auto simp: deleteStoredFile_def fileGone_def split: option.splits)

lemma fold_deleteStoredFile_gallery [simp]:
  "gallery (fold (\<lambda>(i, d). deleteStoredFile env d) files st) = gallery st"
  by (induction files arbitrary: st) auto

lemma fold_deleteStoredFile_bucket:
  "bucket (fold (\<lambda>(i, d). deleteStoredFile env d) files st) \<subseteq> bucket st"
proof (induction files arbitrary: st)
  case Nil
  then show ?case by simp
next
  case (Cons f files)
  obtain i d where f: "f = (i, d)" by (cases f)
  have "bucket (fold (\<lambda>(i, d). deleteStoredFile env d) files (deleteStoredFile env d st))
          \<subseteq> bucket (deleteStoredFile env d st)"
    by (rule Cons.IH)
  also have "\<dots> \<subseteq> bucket st" by (rule deleteStoredFile_bucket)
  finally show ?case by (simp add: f)
qed

lemma fold_deleteStoredFile_gone:
  "(i, d) \<in> set files \<Longrightarrow> fileGone env d (fold (\<lambda>(i, d). deleteStoredFile env d) files st)"
proof (induction files arbitrary: st)
  case Nil
  then show ?case by simp
next
  case (Cons f files)
  obtain j e where f: "f = (j, e)" by (cases f)
  show ?case
  proof (cases "(i, d) \<in> set files")
    case True
    then show ?thesis using Cons.IH by (simp add: f)
  next
    case False
    with Cons.prems f have "e = d" by simp
    have "fileGone env d (deleteStoredFile env d st)" by (rule deleteStoredFile_gone)
    then have "fileGone env d (fold (\<lambda>(i, d). deleteStoredFile env d) files (deleteStoredFile env d st))"
      using fold_deleteStoredFile_bucket by (rule fileGone_mono)
    then show ?thesis by (simp add: f \<open>e = d\<close>)
  qed
qed


lemma folderOrAbsent_mono:
  "hardDeletes env st st' \<Longrightarrow> folderOrAbsent st i \<Longrightarrow> folderOrAbsent st' i"
  using hardDeletes_subset [of env st st'] by (auto simp: folderOrAbsent_def list_all_iff)

lemma removed_by_filter:
  assumes "gallery st' = filter (\<lambda>e. fst e \<notin> R) (gallery st)"
  shows "removedIds st st' = fst ` set (gallery st) \<inter> R"
  unfolding removedIds_def assms by force

lemma deleteFolderContents_hard:
  assumes dist: "distinct (map fst (gallery st))" and fo: "folderOrAbsent st folderId"
  shows "hardDeletes env st (deleteFolderContents env uid' folderId st)"
    and "folderId \<notin> fst ` set (gallery (deleteFolderContents env uid' folderId st))"
proof -
  let ?files = "filesOf uid' folderId st"
  let ?R = "insert folderId (set (map fst ?files))"
  let ?st1 = "fold (\<lambda>(i, d). deleteStoredFile env d) ?files st"
  let ?st' = "deleteFolderContents env uid' folderId st"
  have st': "?st' = ?st1\<lparr>gallery := filter (\<lambda>(i, d). i \<notin> set (map fst ?files) \<and> i \<noteq> folderId)
                            (gallery ?st1)\<rparr>"
    by (simp add: deleteFolderContents_def Let_def)
  have "(\<lambda>(i, d). i \<notin> set (map fst ?files) \<and> i \<noteq> folderId)
          = (\<lambda>e :: jsstring \<times> Doc. fst e \<notin> ?R)"
    by (auto simp: fun_eq_iff)
  with st' have g: "gallery ?st' = filter (\<lambda>e. fst e \<notin> ?R) (gallery st)"
    by simp
  then show "folderId \<notin> fst ` set (gallery ?st')" by auto
  have b: "bucket ?st' = bucket ?st1" by (simp add: st')
  have bs: "bucket ?st' \<subseteq> bucket st" unfolding b by (rule fold_deleteStoredFile_bucket)
  have gone: "fileGone env (snd e) ?st'"
    if e: "e \<in> set (gallery st)" and r: "fst e \<in> removedIds st ?st'" and fd: "isFileDoc (snd e)"
    for e
  proof -
    from r have inR: "fst e \<in> ?R" unfolding removed_by_filter [OF g] by blast
    have "fst e \<noteq> folderId"
    proof
      assume "fst e = folderId"
      with fo e have "docType (snd e) = FolderType"
        by (auto simp: folderOrAbsent_def list_all_iff)
      with fd show False by (simp add: isFileDoc_def)
    qed
    with inR obtain d' where d': "(fst e, d') \<in> set ?files" by auto
    then have "(fst e, d') \<in> set (gallery st)" by (simp add: filesOf_def)
    with dist e have "d' = snd e"
      by (metis eq_key_imp_eq_value prod.collapse)
    with d' have "(fst e, snd e) \<in> set ?files" by simp
    then have "fileGone env (snd e) ?st1" by (rule fold_deleteStoredFile_gone)
    moreover have "bucket ?st' \<subseteq> bucket ?st1" using b by simp
    ultimately show ?thesis by (rule fileGone_mono)
  qed
  from filter_removedIds [OF g] bs gone show "hardDeletes env st ?st'"
    by (auto simp: hardDeletes_def list_all_iff)
qed

lemma subFolders_folderOrAbsent:
  assumes dist: "distinct (map fst (gallery st))"
    and i: "i \<in> set (map fst (subFoldersOf uid' folderId st))"
  shows "folderOrAbsent st i"
proof -
  from i obtain d where d: "(i, d) \<in> set (gallery st)" "docType d = FolderType"
    by (auto simp: subFoldersOf_def)
  have "docType (snd e) = FolderType" if "e \<in> set (gallery st)" "fst e = i" for e
  proof -
    from that dist d(1) have "snd e = d" by (metis eq_key_imp_eq_value prod.collapse)
    with d(2) show ?thesis by simp
  qed
  then show ?thesis by (auto simp: folderOrAbsent_def list_all_iff)
qed

lemma deleteFolderRecursive_hard:
  "deleteFolderRecursive env n folderId uid' st = Some st' \<Longrightarrow>
     distinct (map fst (gallery st)) \<Longrightarrow> folderOrAbsent st folderId \<Longrightarrow>
     hardDeletes env st st' \<and> folderId \<notin> fst ` set (gallery st')"
  "deleteSubFolders env n ids uid' st = Some st' \<Longrightarrow>
     distinct (map fst (gallery st)) \<Longrightarrow> list_all (folderOrAbsent st) ids \<Longrightarrow>
     hardDeletes env st st'"
proof (induction env n folderId uid' st and env n ids uid' st arbitrary: st' and st'
       rule: deleteFolderRecursive_deleteSubFolders.induct)
  case (1 env folderId uid' st)
  then show ?case by simp
next
  case (2 env n folderId uid' st)
  from "2.prems"(1) obtain st1 where
    sub: "deleteSubFolders env n (map fst (subFoldersOf uid' folderId st)) uid' st = Some st1"
    and st': "st' = deleteFolderContents env uid' folderId st1"
    by (auto split: option.splits)
  have "list_all (folderOrAbsent st) (map fst (subFoldersOf uid' folderId st))"
    using subFolders_folderOrAbsent [OF "2.prems"(2)] by (auto simp: list_all_iff)
  with "2.IH" [OF sub "2.prems"(2)] have h1: "hardDeletes env st st1" by simp
  then have d1: "distinct (map fst (gallery st1))" using "2.prems"(2)
    by (rule hardDeletes_distinct)
  from h1 "2.prems"(3) have f1: "folderOrAbsent st1 folderId" by (rule folderOrAbsent_mono)
  from deleteFolderContents_hard [OF d1 f1, of env uid'] h1 show ?case
    unfolding st' by (auto intro: hardDeletes_trans)
next
  case (3 env n uid' st)
  then show ?case by (simp add: hardDeletes_refl)
next
  case (4 env n i ids uid' st)
  from "4.prems"(1) obtain st1 where
    r: "deleteFolderRecursive env n i uid' st = Some st1"
    and rest: "deleteSubFolders env n ids uid' st1 = Some st'"
    by (auto split: option.splits)
  from "4.prems"(3) have fi: "folderOrAbsent st i" by simp
  from "4.IH"(1) [OF r "4.prems"(2) fi] have h1: "hardDeletes env st st1" by simp
  then have d1: "distinct (map fst (gallery st1))" using "4.prems"(2)
    by (rule hardDeletes_distinct)
  from "4.prems"(3) h1 have "list_all (folderOrAbsent st1) ids"
    by (auto simp: list_all_iff intro: folderOrAbsent_mono)
  with "4.IH"(2) [OF r rest d1] have "hardDeletes env st1 st'" by simp
  with h1 show ?case by (rule hardDeletes_trans)
qed


lemma lookup_folderOrAbsent:
  assumes dist: "distinct (map fst (gallery st))"
    and m: "map_of (gallery st) i = Some d" and f: "docType d = FolderType"
  shows "folderOrAbsent st i"
proof -
  have "docType (snd e) = FolderType" if "e \<in> set (gallery st)" "fst e = i" for e
  proof -
    from that have "(i, snd e) \<in> set (gallery st)" by auto
    with dist m have "snd e = d" by simp
    with f show ?thesis by simp
  qed
  then show ?thesis by (auto simp: folderOrAbsent_def list_all_iff)
qed

lemma deleteFile_hard:
  fixes env :: galleryEnv and d :: Doc and st :: store and i :: jsstring
  assumes dist: "distinct (map fst (gallery st))"
    and m: "map_of (gallery st) i = Some d"
  defines "st2 \<equiv> (deleteStoredFile env d st)
                    \<lparr>gallery := filter (\<lambda>(j, e). j \<noteq> i) (gallery (deleteStoredFile env d st))\<rparr>"
  shows "hardDeletes env st st2" and "i \<notin> fst ` set (gallery st2)"
proof -
  have "(\<lambda>(j, e). j \<noteq> i) = (\<lambda>e :: jsstring \<times> Doc. fst e \<notin> {i})"
    by (auto simp: fun_eq_iff)
  then have g: "gallery st2 = filter (\<lambda>e. fst e \<notin> {i}) (gallery st)"
    by (simp add: st2_def)
  then show "i \<notin> fst ` set (gallery st2)" by auto
  have bs: "bucket st2 \<subseteq> bucket (deleteStoredFile env d st)" by (simp add: st2_def)
  also have "\<dots> \<subseteq> bucket st" by (rule deleteStoredFile_bucket)
  finally have b: "bucket st2 \<subseteq> bucket st" .
  have gone: "fileGone env (snd e) st2"
    if e: "e \<in> set (gallery st)" and r: "fst e \<in> removedIds st st2" for e
  proof -
    from r have "fst e = i" unfolding removed_by_filter [OF g] by blast
    with e have "(i, snd e) \<in> set (gallery st)" by auto
    with dist m have "snd e = d" by simp
    moreover have "fileGone env d (deleteStoredFile env d st)" by (rule deleteStoredFile_gone)
    ultimately show ?thesis using bs by (auto intro: fileGone_mono)
  qed
  from filter_removedIds [OF g] b gone show "hardDeletes env st st2"
    by (auto simp: hardDeletes_def list_all_iff)
qed

lemma absent_stays:
  "hardDeletes env st st' \<Longrightarrow> i \<notin> fst ` set (gallery st) \<Longrightarrow> i \<notin> fst ` set (gallery st')"
  using hardDeletes_subset [of env st st'] by auto

lemma deleteItemsLoop_hard:
  "deleteItemsLoop env fuel uid' ids st = Some (code, st') \<Longrightarrow> distinct (map fst (gallery st)) \<Longrightarrow>
     hardDeletes env st st'
     \<and> code = (if list_all (validDocId env) ids then 200 else 500)
     \<and> (\<forall>i \<in> set (takeWhile (validDocId env) ids).
           \<forall>d. map_of (gallery st) i = Some d \<and> docUid d = uid'
            \<and> (docType d = FolderType \<or> isFileDoc d) \<longrightarrow> i \<notin> fst ` set (gallery st'))"
proof (induction ids arbitrary: st)
  case Nil
  then show ?case by (simp add: hardDeletes_refl)
next
  case (Cons a ids)
  note dist = Cons.prems(2)
  show ?case
  proof (cases "validDocId env a")
    case False
    with Cons.prems(1) show ?thesis by (auto simp: hardDeletes_refl)
  next
    case valid: True
    have step: "hardDeletes env st st'
       \<and> code = (if list_all (validDocId env) (a # ids) then 200 else 500)
       \<and> (\<forall>i \<in> set (takeWhile (validDocId env) (a # ids)).
             \<forall>d. map_of (gallery st) i = Some d \<and> docUid d = uid'
              \<and> (docType d = FolderType \<or> isFileDoc d) \<longrightarrow> i \<notin> fst ` set (gallery st'))"
      if h1: "hardDeletes env st st1"
        and rest: "deleteItemsLoop env fuel uid' ids st1 = Some (code, st')"
        and head: "\<And>d. map_of (gallery st) a = Some d \<Longrightarrow> docUid d = uid' \<Longrightarrow>
                    docType d = FolderType \<or> isFileDoc d \<Longrightarrow> a \<notin> fst ` set (gallery st1)"
      for st1
    proof -
      from h1 dist have d1: "distinct (map fst (gallery st1))" by (rule hardDeletes_distinct)
      from Cons.IH [OF rest d1] have h2: "hardDeletes env st1 st'"
        and c: "code = (if list_all (validDocId env) ids then 200 else 500)"
        and r2: "\<And>i d. i \<in> set (takeWhile (validDocId env) ids) \<Longrightarrow>
                   map_of (gallery st1) i = Some d \<Longrightarrow> docUid d = uid'
                   \<Longrightarrow> docType d = FolderType \<or> isFileDoc d \<Longrightarrow> i \<notin> fst ` set (gallery st')"
        by blast+
      from h1 h2 have h: "hardDeletes env st st'" by (rule hardDeletes_trans)
      have "i \<notin> fst ` set (gallery st')"
        if i: "i \<in> set (takeWhile (validDocId env) (a # ids))"
          and m: "map_of (gallery st) i = Some d" and o: "docUid d = uid'"
          and t: "docType d = FolderType \<or> isFileDoc d" for i d
      proof (cases "i \<in> fst ` set (gallery st1)")
        case False
        with h2 show ?thesis by (rule absent_stays)
      next
        case True
        then have "i \<notin> removedIds st st1" by (simp add: removedIds_def)
        with hardDeletes_map_of [OF h1, of i] m have m1: "map_of (gallery st1) i = Some d"
          by simp
        from True head [OF _ o t] m have "i \<noteq> a" by auto
        with i valid have "i \<in> set (takeWhile (validDocId env) ids)" by simp
        then show ?thesis using m1 o t by (rule r2)
      qed
      with h c valid show ?thesis by auto
    qed
    show ?thesis
    proof (cases "map_of (gallery st) a")
      case None
      with valid Cons.prems(1) have "deleteItemsLoop env fuel uid' ids st = Some (code, st')"
        by simp
      with hardDeletes_refl show ?thesis by (rule step) (simp add: None)
    next
      case (Some d)
      show ?thesis
      proof (cases "docUid d = uid'")
        case False
        with valid Some Cons.prems(1)
        have "deleteItemsLoop env fuel uid' ids st = Some (code, st')" by simp
        with hardDeletes_refl show ?thesis by (rule step) (simp add: Some False)
      next
        case True
        show ?thesis
        proof (cases "docType d = FolderType")
          case isFolder: True
          with valid Some \<open>docUid d = uid'\<close> Cons.prems(1) obtain st1 where
            r: "deleteFolderRecursive env fuel a uid' st = Some st1"
            and rest: "deleteItemsLoop env fuel uid' ids st1 = Some (code, st')"
            by (auto split: option.splits)
          from dist Some isFolder have "folderOrAbsent st a" by (rule lookup_folderOrAbsent)
          with deleteFolderRecursive_hard(1) [OF r dist]
          have h: "hardDeletes env st st1" and n: "a \<notin> fst ` set (gallery st1)" by simp_all
          show ?thesis by (rule step [OF h rest]) (rule n)
        next
          case notFolder: False
          show ?thesis
          proof (cases "isFileDoc d")
            case False
            with valid Some True notFolder Cons.prems(1)
            have "deleteItemsLoop env fuel uid' ids st = Some (code, st')" by simp
            with hardDeletes_refl show ?thesis
              by (rule step) (simp add: Some False notFolder)
          next
            case isFile: True
            let ?st2 = "(deleteStoredFile env d st)
                      \<lparr>gallery := filter (\<lambda>(j, e). j \<noteq> a) (gallery (deleteStoredFile env d st))\<rparr>"
            from valid Some True notFolder isFile Cons.prems(1)
            have rest: "deleteItemsLoop env fuel uid' ids ?st2 = Some (code, st')"
              by (simp add: Let_def)
            note h = deleteFile_hard(1) [OF dist Some, of env]
              and n = deleteFile_hard(2) [OF dist Some, of env]
            show ?thesis by (rule step [OF h rest]) (rule n)
          qed
        qed
      qed
    qed
  qed
qed

text \<open>Deleting removes documents whatever the gallery is.\<close>

lemma deleteFolderContents_subset:
  "set (gallery (deleteFolderContents env uid' folderId st)) \<subseteq> set (gallery st)"
  by (auto simp: deleteFolderContents_def Let_def)

lemma deleteFolderRecursive_subset:
  "deleteFolderRecursive env n folderId uid' st = Some st' \<Longrightarrow>
     set (gallery st') \<subseteq> set (gallery st)"
  "deleteSubFolders env n ids uid' st = Some st' \<Longrightarrow> set (gallery st') \<subseteq> set (gallery st)"
proof (induction env n folderId uid' st and env n ids uid' st arbitrary: st' and st'
       rule: deleteFolderRecursive_deleteSubFolders.induct)
  case (1 env folderId uid' st)
  then show ?case by simp
next
  case (2 env n folderId uid' st)
  from "2.prems" obtain st1 where
    sub: "deleteSubFolders env n (map fst (subFoldersOf uid' folderId st)) uid' st = Some st1"
    and st': "st' = deleteFolderContents env uid' folderId st1"
    by (auto split: option.splits)
  from "2.IH" [OF sub] deleteFolderContents_subset [of env uid' folderId st1]
  show ?case unfolding st' by blast
next
  case (3 env n uid' st)
  then show ?case by simp
next
  case (4 env n i ids uid' st)
  from "4.prems" obtain st1 where
    r: "deleteFolderRecursive env n i uid' st = Some st1"
    and rest: "deleteSubFolders env n ids uid' st1 = Some st'"
    by (auto split: option.splits)
  from "4.IH"(1) [OF r] "4.IH"(2) [OF r rest] show ?case by blast
qed

lemma subFoldersOf_mono:
  "set (gallery st') \<subseteq> set (gallery st) \<Longrightarrow>
     set (subFoldersOf uid' folderId st') \<subseteq> set (subFoldersOf uid' folderId st)"
  by (auto simp: subFoldersOf_def)

lemma nestedWithin_mono:
  "nestedWithin n uid' st folderId \<Longrightarrow> set (gallery st') \<subseteq> set (gallery st) \<Longrightarrow>
     nestedWithin n uid' st' folderId"
proof (induction n arbitrary: folderId)
  case 0
  then show ?case by simp
next
  case (Suc n)
  have "nestedWithin n uid' st' i" if "i \<in> fst ` set (subFoldersOf uid' folderId st')" for i
  proof -
    from that subFoldersOf_mono [OF Suc.prems(2), of uid' folderId]
    have "i \<in> fst ` set (subFoldersOf uid' folderId st)" by blast
    with Suc.prems(1) have "nestedWithin n uid' st i" by (auto simp: list_all_iff)
    then show ?thesis using Suc.prems(2) by (rule Suc.IH)
  qed
  then show ?case by (auto simp: list_all_iff)
qed

text \<open>Depth \<open>n\<close> is enough for a folder whose nesting is within \<open>n\<close>.\<close>

lemma deleteFolderRecursive_returns:
  "nestedWithin n uid' st folderId \<Longrightarrow> \<exists>st'. deleteFolderRecursive env n folderId uid' st = Some st'"
proof (induction n arbitrary: folderId st)
  case 0
  then show ?case by simp
next
  case (Suc n)
  have subs: "\<exists>st'. deleteSubFolders env n ids uid' st1 = Some st'"
    if "list_all (nestedWithin n uid' st) ids" "set (gallery st1) \<subseteq> set (gallery st)"
    for ids st1
    using that
  proof (induction ids arbitrary: st1)
    case Nil
    then show ?case by simp
  next
    case (Cons i ids)
    from Cons.prems have "nestedWithin n uid' st1 i"
      by (auto intro: nestedWithin_mono)
    then obtain st2 where r: "deleteFolderRecursive env n i uid' st1 = Some st2"
      using Suc.IH by blast
    then have "set (gallery st2) \<subseteq> set (gallery st1)"
      by (rule deleteFolderRecursive_subset)
    with Cons.prems(2) have "set (gallery st2) \<subseteq> set (gallery st)" by blast
    with Cons.IH [of st2] Cons.prems(1) obtain st'
      where "deleteSubFolders env n ids uid' st2 = Some st'" by auto
    with r show ?case by simp
  qed
  from Suc.prems have "list_all (nestedWithin n uid' st) (map fst (subFoldersOf uid' folderId st))"
    by simp
  then obtain st1 where
    "deleteSubFolders env n (map fst (subFoldersOf uid' folderId st)) uid' st = Some st1"
    using subs [of _ st] by blast
  then show ?case by simp
qed

lemma deleteItemsLoop_returns:
  "distinct (map fst (gallery st)) \<Longrightarrow>
   list_all (\<lambda>i. case map_of (gallery st) i of
                    None \<Rightarrow> True
                  | Some d \<Rightarrow> docUid d \<noteq> uid' \<or> docType d \<noteq> FolderType
                             \<or> nestedWithin fuel uid' st i) ids \<Longrightarrow>
   \<exists>r. deleteItemsLoop env fuel uid' ids st = Some r"
proof (induction ids arbitrary: st)
  case Nil
  then show ?case by simp
next
  case (Cons a ids)
  note dist = Cons.prems(1)
  let ?ok = "\<lambda>st i. case map_of (gallery st) i of
                    None \<Rightarrow> True
                  | Some d \<Rightarrow> docUid d \<noteq> uid' \<or> docType d \<noteq> FolderType
                             \<or> nestedWithin fuel uid' st i"
  from Cons.prems(2) have hd: "?ok st a" and tl: "list_all (?ok st) ids"
    by simp_all
  have later: "\<exists>r. deleteItemsLoop env fuel uid' ids st1 = Some r"
    if h: "hardDeletes env st st1" for st1
  proof -
    from h dist have d1: "distinct (map fst (gallery st1))" by (rule hardDeletes_distinct)
    from h have sub: "set (gallery st1) \<subseteq> set (gallery st)" by (rule hardDeletes_subset)
    have "?ok st1 i" if "i \<in> set ids" for i
    proof (cases "map_of (gallery st1) i")
      case None
      then show ?thesis by simp
    next
      case (Some d)
      then have "i \<in> fst ` set (gallery st1)" by (auto dest: map_of_SomeD intro: rev_image_eqI)
      then have "i \<notin> removedIds st st1" by (simp add: removedIds_def)
      with hardDeletes_map_of [OF h, of i] Some have m: "map_of (gallery st) i = Some d" by simp
      from tl that have "?ok st i" by (simp add: list_all_iff)
      with m have "docUid d \<noteq> uid' \<or> docType d \<noteq> FolderType \<or> nestedWithin fuel uid' st i"
        by simp
      then show ?thesis using Some sub by (auto intro: nestedWithin_mono)
    qed
    then have "list_all (?ok st1) ids" by (simp add: list_all_iff)
    with d1 show ?thesis by (rule Cons.IH)
  qed
  from later [OF hardDeletes_refl] have same: "\<exists>r. deleteItemsLoop env fuel uid' ids st = Some r" .
  show ?case
  proof (cases "validDocId env a")
    case False
    then show ?thesis by simp
  next
    case valid: True
    show ?thesis
    proof (cases "map_of (gallery st) a")
      case None
      with valid same show ?thesis by simp
    next
      case (Some d)
      show ?thesis
      proof (cases "docUid d = uid'")
        case False
        with valid Some same show ?thesis by simp
      next
        case own: True
        show ?thesis
        proof (cases "docType d = FolderType")
          case isFolder: True
          with hd Some own have "nestedWithin fuel uid' st a" by simp
          then obtain st1 where r: "deleteFolderRecursive env fuel a uid' st = Some st1"
            using deleteFolderRecursive_returns by blast
          from dist Some isFolder have "folderOrAbsent st a" by (rule lookup_folderOrAbsent)
          with deleteFolderRecursive_hard(1) [OF r dist] have "hardDeletes env st st1" by simp
          from later [OF this] valid Some own isFolder r show ?thesis by simp
        next
          case notFolder: False
          show ?thesis
          proof (cases "isFileDoc d")
            case False
            with valid Some own notFolder same show ?thesis by simp
          next
            case True
            let ?st2 = "(deleteStoredFile env d st)
                      \<lparr>gallery := filter (\<lambda>(j, e). j \<noteq> a) (gallery (deleteStoredFile env d st))\<rparr>"
            from deleteFile_hard(1) [OF dist Some, of env] have "hardDeletes env st ?st2" .
            from later [OF this] valid Some own notFolder True show ?thesis
              by (simp add: Let_def)
          qed
        qed
      qed
    qed
  qed
qed

lemma deleteItemsController_hard:
  assumes dist: "distinct (map fst (gallery st))"
    and r: "deleteItemsController env fuel uid' (ItemIds ids) st = Some (code, st')"
  shows "code = (if list_all (validDocId env) ids then 200 else 500) \<and> hardDeletes env st st'
     \<and> (\<forall>i \<in> set (takeWhile (validDocId env) ids).
           \<forall>d. map_of (gallery st) i = Some d \<and> docUid d = uid'
            \<and> (docType d = FolderType \<or> isFileDoc d)
          \<longrightarrow> map_of (gallery st') i = None \<and> (isFileDoc d \<longrightarrow> fileGone env d st'))"
proof -
  from r have l: "deleteItemsLoop env fuel uid' ids st = Some (code, st')"
    by (simp add: deleteItemsController_def)
  from deleteItemsLoop_hard [OF l dist] have h: "hardDeletes env st st'"
    and s: "code = (if list_all (validDocId env) ids then 200 else 500)"
    and gone: "\<And>i d. i \<in> set (takeWhile (validDocId env) ids) \<Longrightarrow>
                 map_of (gallery st) i = Some d \<Longrightarrow> docUid d = uid'
                 \<Longrightarrow> docType d = FolderType \<or> isFileDoc d \<Longrightarrow> i \<notin> fst ` set (gallery st')"
    by blast+
  have "map_of (gallery st') i = None \<and> (isFileDoc d \<longrightarrow> fileGone env d st')"
    if i: "i \<in> set (takeWhile (validDocId env) ids)" and m: "map_of (gallery st) i = Some d"
      and o: "docUid d = uid'" and t: "docType d = FolderType \<or> isFileDoc d" for i d
  proof -
    from gone [OF i m o t] have n: "i \<notin> fst ` set (gallery st')" .
    then have none: "map_of (gallery st') i = None" by (simp add: map_of_eq_None_iff)
    from m have e: "(i, d) \<in> set (gallery st)" by (rule map_of_SomeD)
    then have "i \<in> removedIds st st'" using n by (force simp: removedIds_def)
    with h e have "isFileDoc d \<longrightarrow> fileGone env d st'"
      by (auto simp: hardDeletes_def list_all_iff)
    with none show ?thesis by simp
  qed
  with s h show ?thesis by blast
qed

lemma deleteItemsController_returns:
  "distinct (map fst (gallery st)) \<Longrightarrow>
   list_all (\<lambda>i. case map_of (gallery st) i of
                    None \<Rightarrow> True
                  | Some d \<Rightarrow> docUid d \<noteq> uid' \<or> docType d \<noteq> FolderType
                             \<or> nestedWithin fuel uid' st i) ids \<Longrightarrow>
   \<exists>r. deleteItemsController env fuel uid' (ItemIds ids) st = Some r"
  using deleteItemsLoop_returns [of st uid' fuel ids env] by (simp add: deleteItemsController_def)

text \<open>The requests that the controllers refuse.\<close>

lemma deleteItemsController_refuses:
  "deleteItemsController env fuel uid' NoItemIds st = Some (400, st)"
  "deleteItemsController env fuel uid' NotAnArray st = Some (400, st)"
  "\<not> validDocId env i \<Longrightarrow>
     deleteItemsController env fuel uid' (ItemIds (i # ids)) st = Some (500, st)"
  by (simp_all add: deleteItemsController_def)

lemma moveItemsController_refuses:
  "moveItemsController env uid' NoItemIds dest st = (400, st)"
  "truthy dest \<Longrightarrow> moveItemsController env uid' NotAnArray dest st = (500, st)"
  "truthy dest \<Longrightarrow> \<not> list_all (validDocId env) ids \<Longrightarrow>
     moveItemsController env uid' (ItemIds ids) dest st = (500, st)"
  by (simp_all add: moveItemsController_def)

lemma findOrCreateTrashFolder_keeps:
  "bucket (snd (snd (findOrCreateTrashFolderController env uid' st))) = bucket st
   \<and> prefix (gallery st) (gallery (snd (snd (findOrCreateTrashFolderController env uid' st))))"
  by (auto simp: findOrCreateTrashFolderController_def split: list.splits)

lemmas gallery_evals = deleteItemsController_def demoStore_def demoGalleryEnv_def isFileDoc_def
  deleteStoredFile_def str_def Let_def moveItemsController_def updateDoc_def

text \<open>
  The trash folder of u1 in the example gallery has no folder below it, so depth 1 is
  enough to delete it.
\<close>

lemma deleteItems_folder_example:
  "nestedWithin 1 (str ''u1'') demoStore (str ''t1'')
   \<and> deleteItemsController demoGalleryEnv 1 (str ''u1'') (ItemIds [str ''t1'']) demoStore
       = Some (200, demoStore\<lparr>gallery := tl (gallery demoStore)\<rparr>)
   \<and> deleteItemsController demoGalleryEnv 0 (str ''u1'') (ItemIds [str ''f1'', str ''a/b'', str ''t1''])
         demoStore
       = Some (500, demoStore\<lparr>gallery := [hd (gallery demoStore), last (gallery demoStore)],
                               bucket := {str ''u2/b.png''}\<rparr>)"
  by (simp add: gallery_evals subFoldersOf_def filesOf_def deleteFolderContents_def
      numeral_1_eq_Suc_0 One_nat_def)

text \<open>
  C4. Deleting gallery items is claimed to be a soft delete that keeps the items in the
  user's trash folder, and the gallery view asks \<open>Mover para lixeira?\<close> before it sends the
  request. deleteItemsController destroys them: user u1, whose trash folder is t1, deletes
  the file f1; the response is 200, and afterwards the gallery has no record of f1, in the
  trash folder or elsewhere, and the bucket does not have its stored file.
\<close>

theorem deleteItems_destroys_owned_file:
  "deleteItemsController demoGalleryEnv 0 (str ''u1'') (ItemIds [str ''f1'']) demoStore
     = Some (200, \<lparr>gallery =
        [(str ''t1'', \<lparr>docUid = str ''u1'', docName = str ''Lixeira'',
                       parentId = Some (str ''root''), docType = FolderType,
                       storagePath = None\<rparr>),
         (str ''f2'', \<lparr>docUid = str ''u2'', docName = str ''b.png'',
                       parentId = Some (str ''root''), docType = FileType,
                       storagePath = Some (str ''u2/b.png'')\<rparr>)],
      bucket = {str ''u2/b.png''}\<rparr>)
   \<and> map_of (gallery demoStore) (str ''f1'')
       = Some \<lparr>docUid = str ''u1'', docName = str ''a.png'', parentId = Some (str ''root''),
               docType = FileType, storagePath = Some (str ''u1/a.png'')\<rparr>
   \<and> str ''u1/a.png'' \<in> bucket demoStore
   \<and> findOrCreateTrashFolderController demoGalleryEnv (str ''u1'') demoStore
       = (200, str ''t1'', demoStore)"
  by (simp add: gallery_evals findOrCreateTrashFolderController_def trashFolderName_def)

text \<open>Rename and delete check the owner of a named item before they touch it.\<close>

lemma renameItemController_foreign:
  "map_of (gallery st) i = None \<or> (\<exists>d. map_of (gallery st) i = Some d \<and> docUid d \<noteq> uid')
   \<Longrightarrow> snd (renameItemController env uid' i newName st) = st"
  by (auto simp: renameItemController_def split: option.splits)

lemma deleteItemsLoop_skips_foreign:
  "validDocId env i \<Longrightarrow>
   map_of (gallery st) i = None \<or> (\<exists>d. map_of (gallery st) i = Some d \<and> docUid d \<noteq> uid')
   \<Longrightarrow> deleteItemsLoop env fuel uid' (i # ids) st = deleteItemsLoop env fuel uid' ids st"
  by auto

lemma moveItemsController_ignores_uid:
  "moveItemsController env uid' itemIds dest st = moveItemsController env uid'' itemIds dest st"
  by (simp add: moveItemsController_def)

text \<open>
  C9. Every gallery mutation endpoint is claimed to leave the record of an item of another
  user unchanged. moveItemsController does not read the owner: user u1 moves the file f2
  of user u2 into the folder t1, and the record of f2 has the new parent.
\<close>

theorem moveItems_moves_foreign_item:
  "map_of (gallery demoStore) (str ''f2'')
       = Some \<lparr>docUid = str ''u2'', docName = str ''b.png'', parentId = Some (str ''root''),
               docType = FileType, storagePath = Some (str ''u2/b.png'')\<rparr>
   \<and> moveItemsController demoGalleryEnv (str ''u1'') (ItemIds [str ''f2'']) (Some (str ''t1''))
       demoStore
     = (200, demoStore\<lparr>gallery :=
        [(str ''t1'', \<lparr>docUid = str ''u1'', docName = str ''Lixeira'',
                       parentId = Some (str ''root''), docType = FolderType,
                       storagePath = None\<rparr>),
         (str ''f1'', \<lparr>docUid = str ''u1'', docName = str ''a.png'',
                       parentId = Some (str ''root''), docType = FileType,
                       storagePath = Some (str ''u1/a.png'')\<rparr>),
         (str ''f2'', \<lparr>docUid = str ''u2'', docName = str ''b.png'',
                       parentId = Some (str ''t1''), docType = FileType,
                       storagePath = Some (str ''u2/b.png'')\<rparr>)]\<rparr>)"
  by (simp add: gallery_evals)

end
